(* ===== verification/Prelude.thy ===== *)
theory Prelude
  imports Main "HOL-Library.Word"
begin

text \<open>
  Shared vocabulary of the development: the error-propagating bind that threads the
  C code's early failures, C strings as NUL-terminated character lists, the in-place
  write of a string into a fixed buffer, the \<open>strlen\<close> scan, and the separator join
  that the JSON serializer is compared against. The collection \<open>cbuf_simps\<close> gathers
  the rewriting facts the component proofs share.
\<close>

named_theorems cbuf_simps "rewriting facts about fixed C buffers and C strings"

type_synonym cstring = "char list"

abbreviation nul :: char where
  "nul \<equiv> CHR 0x00"

subsection \<open>Error propagation\<close>

text \<open>
  A computation that may stop the process or fail is a value of \<open>'e + 'a\<close> (\<open>Inl\<close> the
  failure). \<open>ebind\<close> runs the rest only on success, as the C code's straight-line
  sequence does when no call aborts.
\<close>

definition ebind :: "'e + 'a \<Rightarrow> ('a \<Rightarrow> 'e + 'b) \<Rightarrow> 'e + 'b" where
  "ebind m f = (case m of Inl e \<Rightarrow> Inl e | Inr a \<Rightarrow> f a)"

lemma ebind_Inl [simp]: "ebind (Inl e) f = Inl e"
  and ebind_Inr [simp]: "ebind (Inr a) f = f a"
  by (simp_all add: ebind_def)

lemma ebind_Inr_right [simp]: "ebind m Inr = m"
  by (cases m) simp_all

lemma ebind_assoc: "ebind (ebind m f) g = ebind m (\<lambda>x. ebind (f x) g)"
  by (cases m) simp_all

lemma ebind_eq_Inr:
  "ebind m f = Inr b \<longleftrightarrow> (\<exists>a. m = Inr a \<and> f a = Inr b)"
  by (cases m) simp_all

lemma ebind_eq_Inl:
  "ebind m f = Inl e \<longleftrightarrow> m = Inl e \<or> (\<exists>a. m = Inr a \<and> f a = Inl e)"
  by (cases m) simp_all

subsection \<open>Writing into a fixed buffer\<close>

text \<open>
  \<open>buf_write b i s\<close> is the buffer \<open>b\<close> after the characters \<open>s\<close> are stored at
  positions \<open>i, i+1, \<dots>\<close>; the caller guarantees \<open>i + length s \<le> length b\<close>.
\<close>

definition buf_write :: "'a list \<Rightarrow> nat \<Rightarrow> 'a list \<Rightarrow> 'a list" where
  "buf_write b i s = take i b @ s @ drop (i + length s) b"

lemma length_buf_write [cbuf_simps]:
  "i + length s \<le> length b \<Longrightarrow> length (buf_write b i s) = length b"
  by (simp add: buf_write_def)

lemma take_buf_write [cbuf_simps]:
  "i \<le> length b \<Longrightarrow> take i (buf_write b i s) = take i b"
  by (simp add: buf_write_def)

lemma take_buf_write_end [cbuf_simps]:
  "i \<le> length b \<Longrightarrow> take (i + length s) (buf_write b i s) = take i b @ s"
  by (simp add: buf_write_def min_def)

lemma buf_write_nil [simp]: "i \<le> length b \<Longrightarrow> buf_write b i [] = b"
  by (simp add: buf_write_def)

subsection \<open>strlen\<close>

text \<open>
  \<open>strlen_opt b\<close> is the index of the first NUL of \<open>b\<close>, and \<open>None\<close> when \<open>b\<close>
  holds none: a C \<open>strlen\<close> on such an array reads past its end.
\<close>

fun strlen_opt :: "char list \<Rightarrow> nat option" where
  "strlen_opt [] = None"
| "strlen_opt (c # cs) = (if c = nul then Some 0 else map_option Suc (strlen_opt cs))"

lemma strlen_opt_append_nul [cbuf_simps]:
  "nul \<notin> set s \<Longrightarrow> strlen_opt (s @ nul # r) = Some (length s)"
  by (induction s) auto

lemma strlen_opt_None_iff: "strlen_opt b = None \<longleftrightarrow> nul \<notin> set b"
  by (induction b) auto

lemma strlen_opt_Some_less: "strlen_opt b = Some n \<Longrightarrow> n < length b"
  by (induction b arbitrary: n) (auto split: if_splits)

lemma strlen_opt_Some_take: "strlen_opt b = Some n \<Longrightarrow> nul \<notin> set (take n b)"
  by (induction b arbitrary: n) (auto split: if_splits)

subsection \<open>Joining with a separator\<close>

text \<open>
  \<open>join_with sep xs\<close> puts \<open>sep\<close> between consecutive elements only: never before the
  first nor after the last.
\<close>

fun join_with :: "'a list \<Rightarrow> 'a list list \<Rightarrow> 'a list" where
  "join_with sep [] = []"
| "join_with sep [x] = x"
| "join_with sep (x # y # xs) = x @ sep @ join_with sep (y # xs)"

lemma join_with_Cons:
  "join_with sep (x # xs) = x @ (if xs = [] then [] else sep @ join_with sep xs)"
  by (cases xs) simp_all

lemma set_join_with_subset:
  "set (join_with sep xs) \<subseteq> set sep \<union> \<Union> (set ` set xs)"
  by (induction sep xs rule: join_with.induct) auto

lemma length_join_with:
  "length (join_with sep xs) = sum_list (map length xs) + length sep * (length xs - 1)"
  by (induction sep xs rule: join_with.induct) (auto simp: algebra_simps)

lemma concat_map_snoc_sep:
  "xs \<noteq> [] \<Longrightarrow> concat (map (\<lambda>y. f y @ sep) xs) = join_with sep (map f xs) @ sep"
  by (induction xs) (auto simp: join_with_Cons)

subsection \<open>Machine integers\<close>

text \<open>A C \<open>int\<close> counter below \<open>2^31\<close> reads back as itself through \<open>sint\<close>.\<close>

lemma sint_word_of_nat_small:
  assumes "k < 2 ^ 31"
  shows "sint (word_of_nat k :: 32 word) = int k"
proof -
  have "signed_take_bit 31 (int k) = int k"
    using assms by (intro signed_take_bit_int_eq_self) simp_all
  then show ?thesis
    using sint_sbintrunc' [of "int k", where 'a = 32] by simp
qed

text \<open>From \<open>2^31\<close> on, the counter wraps to negative values.\<close>

lemma sint_word_of_nat_wrap:
  assumes "2 ^ 31 \<le> k" and "k < 2 ^ 32"
  shows "sint (word_of_nat k :: 32 word) = int k - 2 ^ 32"
proof -
  have "(int k + 2 ^ 31) mod 2 ^ 32 = (int k + 2 ^ 31 - 2 ^ 32 + 2 ^ 32) mod 2 ^ 32"
    by (simp add: add.commute)
  also have "\<dots> = (int k + 2 ^ 31 - 2 ^ 32) mod 2 ^ 32"
    by (rule mod_add_self2)
  also have "\<dots> = int k + 2 ^ 31 - 2 ^ 32"
    using assms by (intro mod_pos_pos_trivial) simp_all
  finally have "signed_take_bit 31 (int k) = int k - 2 ^ 32"
    by (simp add: signed_take_bit_eq_take_bit_shift take_bit_eq_mod)
  then show ?thesis
    using sint_sbintrunc' [of "int k", where 'a = 32] by simp
qed
end
