(* ===== verification/DR_API.thy ===== *)
theory DR_API
  imports Prelude
begin

text \<open>
  The parts of the DynamoRIO API that the client \<open>src/client_bbv/client_bbv.c\<close> calls
  and whose behaviour its correctness depends on, modelled from their documented
  contracts: \<open>dr_snprintf\<close> with the \<open>%d\<close>, \<open>%p\<close> and \<open>%s\<close> conversions, the
  \<open>size_t\<close> conversion of its size argument, the application-instruction iteration
  \<open>instrlist_first_app\<close>/\<open>instr_get_next_app\<close>, \<open>instr_disassemble_to_buffer\<close>,
  \<open>strlen\<close> on a fixed array, and the non-recursive DR mutex. Every failure the
  contracts allow (a write or read outside the array, a lock misuse, a failed
  assertion) is a value of \<open>dr_error\<close>.
\<close>

datatype dr_error =
    WriteOutOfBounds   \<comment> \<open>a store outside the destination array\<close>
  | ReadOutOfBounds    \<comment> \<open>\<open>strlen\<close> ran past the end of an unterminated array\<close>
  | AssertFailed       \<comment> \<open>\<open>DR_ASSERT\<close> failed: the process is terminated\<close>
  | InvalidMutex       \<comment> \<open>lock or unlock of a mutex that does not exist\<close>
  | SelfDeadlock       \<comment> \<open>a thread locks the non-recursive mutex it holds\<close>

subsection \<open>Integer conversions of the C code\<close>

text \<open>
  \<open>sizeof(json_buf) - json_offset\<close> is computed in \<open>size_t\<close> (64 bits): the \<open>int\<close>
  offset is converted and the difference wraps modulo \<open>2^64\<close>.
\<close>

definition size_t_of_int :: "int \<Rightarrow> nat" where
  "size_t_of_int x = nat (x mod 2 ^ 64)"

lemma size_t_of_int_small [simp]:
  "0 \<le> x \<Longrightarrow> x < 2 ^ 64 \<Longrightarrow> size_t_of_int x = nat x"
  by (simp add: size_t_of_int_def)

subsection \<open>printf conversions\<close>

definition digit_char :: "nat \<Rightarrow> char" where
  "digit_char d = char_of (48 + d)"

fun dec_nat :: "nat \<Rightarrow> string" where
  "dec_nat n = (if n < 10 then [digit_char n] else dec_nat (n div 10) @ [digit_char (n mod 10)])"

declare dec_nat.simps [simp del]

text \<open>\<open>%d\<close> of an \<open>int\<close>: an optional minus sign and the decimal digits.\<close>

definition fmt_int :: "int \<Rightarrow> string" where
  "fmt_int i = (if i < 0 then CHR ''-'' # dec_nat (nat (- i)) else dec_nat (nat i))"

definition hex_char :: "nat \<Rightarrow> char" where
  "hex_char d = (if d < 10 then char_of (48 + d) else char_of (87 + d))"

primrec hex_fixed :: "nat \<Rightarrow> nat \<Rightarrow> string" where
  "hex_fixed 0 n = []"
| "hex_fixed (Suc k) n = hex_fixed k (n div 16) @ [hex_char (n mod 16)]"

text \<open>
  \<open>%p\<close> in DynamoRIO's own formatter: \<open>0x\<close> and the pointer in lower-case hexadecimal,
  zero-padded to the pointer width (16 digits on a 64-bit target).
\<close>

definition fmt_ptr :: "64 word \<Rightarrow> string" where
  "fmt_ptr p = ''0x'' @ hex_fixed 16 (unat p)"

text \<open>\<open>%s\<close> copies the argument up to its terminating NUL.\<close>

definition fmt_str :: "cstring \<Rightarrow> string" where
  "fmt_str s = takeWhile (\<lambda>c. c \<noteq> nul) s"

text \<open>No conversion produces a NUL, so a formatted line is one C string.\<close>

lemma digit_char_not_nul [simp]:
  "d < 10 \<Longrightarrow> digit_char d \<noteq> nul" "d < 10 \<Longrightarrow> nul \<noteq> digit_char d"
  by (simp_all add: digit_char_def char_of_eq_iff take_bit_eq_mod eq_commute [of nul])

lemma hex_char_not_nul [simp]:
  "d < 16 \<Longrightarrow> hex_char d \<noteq> nul" "d < 16 \<Longrightarrow> nul \<noteq> hex_char d"
  by (simp_all add: hex_char_def char_of_eq_iff take_bit_eq_mod eq_commute [of nul])

lemma nul_notin_dec_nat [simp]: "nul \<notin> set (dec_nat n)"
proof (induction n rule: dec_nat.induct)
  case (1 n)
  then show ?case by (subst dec_nat.simps) auto
qed

lemma nul_notin_fmt_int [simp]: "nul \<notin> set (fmt_int i)"
  by (simp add: fmt_int_def)

lemma nul_notin_hex_fixed [simp]: "nul \<notin> set (hex_fixed k n)"
  by (induction k arbitrary: n) auto

lemma length_hex_fixed [simp]: "length (hex_fixed k n) = k"
  by (induction k arbitrary: n) auto

lemma nul_notin_fmt_ptr [simp]: "nul \<notin> set (fmt_ptr p)"
  by (simp add: fmt_ptr_def)

lemma length_fmt_ptr [simp]: "length (fmt_ptr p) = 18"
  by (simp add: fmt_ptr_def)

lemma nul_notin_fmt_str [simp]: "nul \<notin> set (fmt_str s)"
  by (induction s) (auto simp: fmt_str_def)

text \<open>Lengths of the conversions, for the buffer bounds.\<close>

lemma length_dec_nat_le: "n < 10 ^ k \<Longrightarrow> length (dec_nat n) \<le> max 1 k"
proof (induction n arbitrary: k rule: dec_nat.induct)
  case (1 n)
  show ?case
  proof (cases "n < 10")
    case True
    then show ?thesis by (subst dec_nat.simps) simp
  next
    case False
    with "1.prems" obtain j where k: "k = Suc j"
      by (cases k) auto
    with "1.prems" have "n div 10 < 10 ^ j"
      by (simp add: less_mult_imp_div_less mult.commute)
    with False "1.IH" have "length (dec_nat (n div 10)) \<le> max 1 j"
      by simp
    moreover from False "1.prems" k have "0 < j"
      by (cases j) simp_all
    ultimately show ?thesis
      using False k by (subst dec_nat.simps) simp
  qed
qed

lemma length_fmt_int_sint: "length (fmt_int (sint (w :: 32 word))) \<le> 11"
proof -
  have lo: "- (2 ^ 31) \<le> sint w" and hi: "sint w < 2 ^ 31"
    using sint_ge [of w] sint_lt [of w] by simp_all
  have "nat \<bar>sint w\<bar> < 10 ^ 10"
    using lo hi by simp
  then have "length (dec_nat (nat \<bar>sint w\<bar>)) \<le> 10"
    using length_dec_nat_le [of "nat \<bar>sint w\<bar>" 10] by simp
  then show ?thesis
    by (simp add: fmt_int_def abs_if split: if_splits)
qed

lemma length_fmt_str_le: "length (fmt_str s) \<le> length s"
  by (simp add: fmt_str_def length_takeWhile_le)

subsection \<open>dr_snprintf\<close>

text \<open>
  \<open>dr_snprintf(buf, max, fmt, ...)\<close> with the formatted text \<open>s\<close> already rendered:
  if \<open>s\<close> is shorter than \<open>max\<close> (\<open>mx\<close> below) it is written with its NUL and its length returned;
  if it is exactly \<open>max\<close> long it is written without a NUL and its length returned;
  if it is longer, its first \<open>max\<close> characters are written, without a NUL, and \<open>-1\<close>
  is returned. \<open>pos\<close> is the destination's index in the array \<open>buf\<close>; a store
  outside the array is \<open>WriteOutOfBounds\<close>.
\<close>

definition snprintf_out :: "nat \<Rightarrow> string \<Rightarrow> string" where
  "snprintf_out mx s = (if length s < mx then s @ [nul] else take mx s)"

definition snprintf_ret :: "nat \<Rightarrow> string \<Rightarrow> int" where
  "snprintf_ret mx s = (if length s \<le> mx then int (length s) else -1)"

definition dr_snprintf :: "char list \<Rightarrow> int \<Rightarrow> nat \<Rightarrow> string \<Rightarrow> dr_error + char list \<times> int" where
  "dr_snprintf buf pos mx s =
     (let w = snprintf_out mx s
      in if w = [] then Inr (buf, snprintf_ret mx s)
         else if pos < 0 \<or> length buf < nat pos + length w then Inl WriteOutOfBounds
         else Inr (buf_write buf (nat pos) w, snprintf_ret mx s))"

subsection \<open>Instructions of a basic block\<close>

text \<open>
  An \<open>instr_t\<close> as the client sees it: whether it is an application instruction (not
  a meta instruction inserted by a client), its application pc, and the text the
  host's disassembler prints for it.
\<close>

record instr =
  instr_is_app :: bool
  instr_app_pc :: "64 word"
  instr_text :: string

type_synonym instrlist = "instr list"

text \<open>
  \<open>instrlist_first_app\<close> and \<open>instr_get_next_app\<close> visit the application instructions
  in list order: the iteration walks \<open>app_instrs bb\<close>.
\<close>

definition app_instrs :: "instrlist \<Rightarrow> instr list" where
  "app_instrs bb = filter instr_is_app bb"

text \<open>
  \<open>instr_disassemble_to_buffer(dc, instr, buf, bufsz)\<close> always NUL-terminates and
  prints at most \<open>bufsz\<close> characters including the NUL: the C string left in
  \<open>buf\<close> is the disassembly truncated to \<open>bufsz - 1\<close> characters.
\<close>

definition instr_disassemble_to_buffer :: "instr \<Rightarrow> nat \<Rightarrow> cstring" where
  "instr_disassemble_to_buffer i bufsz = take (bufsz - 1) (takeWhile (\<lambda>c. c \<noteq> nul) (instr_text i))"

lemma length_disassemble_le: "length (instr_disassemble_to_buffer i bufsz) \<le> bufsz - 1"
  by (simp add: instr_disassemble_to_buffer_def)

subsection \<open>The DR mutex\<close>

text \<open>
  A mutex handle is \<open>None\<close> before \<open>dr_mutex_create\<close> and after
  \<open>dr_mutex_destroy\<close>. DR mutexes are not recursive.
\<close>

datatype mutex_st = MxFree | MxHeld

definition dr_mutex_lock :: "mutex_st option \<Rightarrow> dr_error + mutex_st option" where
  "dr_mutex_lock m =
     (case m of None \<Rightarrow> Inl InvalidMutex
      | Some MxFree \<Rightarrow> Inr (Some MxHeld)
      | Some MxHeld \<Rightarrow> Inl SelfDeadlock)"

definition dr_mutex_unlock :: "mutex_st option \<Rightarrow> dr_error + mutex_st option" where
  "dr_mutex_unlock m =
     (case m of Some MxHeld \<Rightarrow> Inr (Some MxFree) | _ \<Rightarrow> Inl InvalidMutex)"

end
