(* ===== verification/Serializer.thy ===== *)
theory Serializer
  imports DR_API
begin

text \<open>
  The serializer: the body of \<open>bb_instrumentation\<close> in \<open>src/client_bbv/client_bbv.c\<close>
  (lines 51--76) that formats one basic block into the fixed stack array
  \<open>char json_buf[4096]\<close> through a chain of \<open>dr_snprintf\<close> calls advancing
  \<open>json_offset\<close>, and then takes \<open>strlen(json_buf)\<close> characters of it for the log.
  \<open>json_record\<close> is the line the code is meant to produce; the lemmas show when the
  buffer computation produces exactly that line, that no store ever leaves the array,
  and what happens when the line does not fit.
\<close>

subsection \<open>Constants of the source\<close>

definition max_instrs :: nat where
  "max_instrs = 64"

definition disasm_bufsz :: nat where
  "disasm_bufsz = 256"

definition json_bufsz :: nat where
  "json_bufsz = 4096"

subsection \<open>The buffer state and one formatted store\<close>

text \<open>\<open>json_buf\<close> and \<open>json_offset\<close>, the locals of \<open>bb_instrumentation\<close>.\<close>

record json_state =
  json_buf :: "char list"
  json_offset :: int

text \<open>
  One statement \<open>json_offset += dr_snprintf(json_buf + json_offset,
  sizeof(json_buf) - json_offset, fmt, ...)\<close> with the formatted text \<open>s\<close>.
\<close>

definition json_emit :: "json_state \<Rightarrow> string \<Rightarrow> dr_error + json_state" where
  "json_emit st s =
     ebind (dr_snprintf (json_buf st) (json_offset st)
              (size_t_of_int (int json_bufsz - json_offset st)) s)
       (\<lambda>(b, r). Inr (st\<lparr>json_buf := b, json_offset := json_offset st + r\<rparr>))"

text \<open>The uninitialised array: whatever the stack holds at its 4096 positions.\<close>

definition json_init :: "(nat \<Rightarrow> char) \<Rightarrow> json_state" where
  "json_init junk = \<lparr>json_buf = map junk [0..<json_bufsz], json_offset = 0\<rparr>"

subsection \<open>The formatted pieces\<close>

definition bb_header :: "32 word \<Rightarrow> string" where
  \<open>bb_header bid = ''{"bb_id": '' @ fmt_int (sint bid) @ '', "instructions": [''\<close>

definition instr_json :: "64 word \<Rightarrow> cstring \<Rightarrow> string" where
  \<open>instr_json pc d = ''{"pc": "'' @ fmt_ptr pc @ ''", "disasm": "'' @ fmt_str d @ ''"}''\<close>

definition json_sep :: string where
  "json_sep = '', ''"

definition json_trailer :: string where
  "json_trailer = '']}'' @ [CHR 0x0A]"

text \<open>The JSON object of one instruction, as the loop body formats it.\<close>

definition entry_json :: "instr \<Rightarrow> string" where
  "entry_json i = instr_json (instr_app_pc i) (instr_disassemble_to_buffer i disasm_bufsz)"

subsection \<open>The loop and the whole serialization\<close>

text \<open>
  The \<open>for\<close> loop over the application instructions: \<open>count\<close> is the loop counter,
  the list is the iterator's remaining instructions (its head is \<open>instr_it\<close>), and the
  separator is printed when \<open>instr_get_next_app(instr_it) != NULL\<close> and
  \<open>count + 1 < max_instrs\<close>.
\<close>

fun bb_loop :: "nat \<Rightarrow> instr list \<Rightarrow> json_state \<Rightarrow> dr_error + json_state" where
  "bb_loop count [] st = Inr st"
| "bb_loop count (it # rest) st =
     (if count < max_instrs then
        ebind (json_emit st (instr_json (instr_app_pc it) (instr_disassemble_to_buffer it disasm_bufsz)))
          (\<lambda>st1. ebind (if rest \<noteq> [] \<and> count + 1 < max_instrs then json_emit st1 json_sep else Inr st1)
          (\<lambda>st2. bb_loop (Suc count) rest st2))
      else Inr st)"

text \<open>
  Lines 55--76: the header with \<open>bb_id\<close>, the loop, the trailer, and the
  \<open>strlen(json_buf)\<close> characters handed to \<open>dr_write_file\<close>.
\<close>

definition bb_json :: "32 word \<Rightarrow> instrlist \<Rightarrow> (nat \<Rightarrow> char) \<Rightarrow> dr_error + string" where
  "bb_json bid bb junk =
     ebind (json_emit (json_init junk) (bb_header bid)) (\<lambda>st.
     ebind (bb_loop 0 (app_instrs bb) st) (\<lambda>st.
     ebind (json_emit st json_trailer) (\<lambda>st.
       (case strlen_opt (json_buf st) of
          None \<Rightarrow> Inl ReadOutOfBounds
        | Some n \<Rightarrow> Inr (take n (json_buf st))))))"

subsection \<open>The intended record\<close>

text \<open>
  The instructions the record lists: the application instructions in program order,
  at most \<open>max_instrs\<close> of them; and the line the code means to write.
\<close>

definition bb_entries :: "instrlist \<Rightarrow> instr list" where
  "bb_entries bb = take max_instrs (app_instrs bb)"

definition json_record :: "32 word \<Rightarrow> instrlist \<Rightarrow> string" where
  "json_record bid bb =
     bb_header bid @ join_with json_sep (map entry_json (bb_entries bb)) @ json_trailer"

subsection \<open>Stores that fit\<close>

text \<open>
  \<open>holds_prefix st p\<close>: the array has its 4096 cells, the offset is just after the
  text \<open>p\<close> written so far, and the array starts with \<open>p\<close>.
\<close>

definition holds_prefix :: "json_state \<Rightarrow> string \<Rightarrow> bool" where
  "holds_prefix st p \<longleftrightarrow>
     length (json_buf st) = json_bufsz \<and> json_offset st = int (length p) \<and>
     take (length p) (json_buf st) = p"

lemma holds_prefix_init: "holds_prefix (json_init junk) []"
  by (simp add: holds_prefix_def json_init_def)

lemma nul_notin_entry_json [simp]: "nul \<notin> set (entry_json i)"
  by (simp add: entry_json_def instr_json_def)

lemma nul_notin_json_record [simp]: "nul \<notin> set (json_record bid bb)"
proof -
  have "set (join_with json_sep (map entry_json (bb_entries bb))) \<subseteq>
          set json_sep \<union> \<Union> (set ` set (map entry_json (bb_entries bb)))"
    by (rule set_join_with_subset)
  then show ?thesis
    by (auto simp: json_record_def bb_header_def json_sep_def json_trailer_def)
qed

text \<open>A store that fits writes the text and its NUL and advances the offset by its length.\<close>

lemma json_emit_fits:
  assumes hp: "holds_prefix st p" and fit: "length p + length s < json_bufsz"
  shows "\<exists>st'. json_emit st s = Inr st' \<and> holds_prefix st' (p @ s) \<and>
           take (length p + length s + 1) (json_buf st') = p @ s @ [nul]"
proof -
  let ?b = "buf_write (json_buf st) (length p) (s @ [nul])"
  have off: "json_offset st = int (length p)" and len: "length (json_buf st) = json_bufsz"
    and pre: "take (length p) (json_buf st) = p"
    using hp by (simp_all add: holds_prefix_def)
  have mx: "size_t_of_int (int json_bufsz - int (length p)) = json_bufsz - length p"
    using fit by (simp add: json_bufsz_def)
  have out: "snprintf_out (json_bufsz - length p) s = s @ [nul]"
    using fit by (simp add: snprintf_out_def)
  have ret: "snprintf_ret (json_bufsz - length p) s = int (length s)"
    using fit by (simp add: snprintf_ret_def)
  have emit: "json_emit st s = Inr (st\<lparr>json_buf := ?b, json_offset := int (length p + length s)\<rparr>)"
    using fit off len by (simp add: json_emit_def dr_snprintf_def Let_def mx out ret)
  have blen: "length ?b = json_bufsz"
    using fit len by (simp add: length_buf_write)
  have btake: "take (length p + length s + 1) ?b = p @ s @ [nul]"
    using fit len pre take_buf_write_end [of "length p" "json_buf st" "s @ [nul]"] by simp
  have "take (length p + length s) ?b = take (length p + length s) (take (length p + length s + 1) ?b)"
    by simp
  also have "\<dots> = p @ s"
    using btake by simp
  finally have "take (length p + length s) ?b = p @ s" .
  with emit blen btake show ?thesis
    by (simp add: holds_prefix_def)
qed

text \<open>
  The loop, when everything it prints fits, prints the objects of the first
  \<open>max_instrs - count\<close> remaining instructions separated by \<open>json_sep\<close>.
\<close>

lemma bb_loop_fits:
  assumes "holds_prefix st p" and "count \<le> max_instrs"
    and "length p + length (join_with json_sep (map entry_json (take (max_instrs - count) xs))) < json_bufsz"
  shows "\<exists>st'. bb_loop count xs st = Inr st' \<and>
           holds_prefix st' (p @ join_with json_sep (map entry_json (take (max_instrs - count) xs)))"
  using assms
proof (induction xs arbitrary: count st p)
  case Nil
  then show ?case by simp
next
  case (Cons x rest)
  show ?case
  proof (cases "count < max_instrs")
    case False
    with Cons.prems show ?thesis by simp
  next
    case True
    let ?tl = "take (max_instrs - Suc count) rest"
    let ?J = "join_with json_sep (map entry_json ?tl)"
    have tk: "take (max_instrs - count) (x # rest) = x # ?tl"
      using True by (simp add: Suc_diff_Suc [symmetric])
    have cond: "(rest \<noteq> [] \<and> count + 1 < max_instrs) \<longleftrightarrow> ?tl \<noteq> []"
      by auto
    have whole: "join_with json_sep (map entry_json (x # ?tl)) =
                   entry_json x @ (if ?tl = [] then [] else json_sep @ ?J)"
      by (simp add: join_with_Cons)
    have fit: "length p + length (entry_json x @ (if ?tl = [] then [] else json_sep @ ?J)) < json_bufsz"
      using Cons.prems(3) tk whole by simp
    obtain st1 where e1: "json_emit st (entry_json x) = Inr st1"
      and h1: "holds_prefix st1 (p @ entry_json x)"
      using json_emit_fits [OF Cons.prems(1), of "entry_json x"] fit by auto
    show ?thesis
    proof (cases "?tl = []")
      case True
      have W: "join_with json_sep (map entry_json (take (max_instrs - count) (x # rest))) = entry_json x"
        by (simp only: tk True) simp
      have nc: "\<not> (rest \<noteq> [] \<and> count + 1 < max_instrs)"
        using cond True by blast
      have step: "bb_loop count (x # rest) st = bb_loop (Suc count) rest st1"
        using e1 nc \<open>count < max_instrs\<close> by (auto simp: entry_json_def)
      have "\<exists>st'. bb_loop (Suc count) rest st1 = Inr st' \<and> holds_prefix st' (p @ entry_json x)"
        using Cons.IH [where count = "Suc count", OF h1] \<open>count < max_instrs\<close> fit True by simp
      then show ?thesis
        by (simp only: W step)
    next
      case False
      have W: "join_with json_sep (map entry_json (take (max_instrs - count) (x # rest))) =
                 entry_json x @ json_sep @ ?J"
        using False by (simp add: tk join_with_Cons)
      have c: "rest \<noteq> [] \<and> count + 1 < max_instrs"
        using cond False by blast
      obtain st2 where e2: "json_emit st1 json_sep = Inr st2"
        and h2: "holds_prefix st2 ((p @ entry_json x) @ json_sep)"
        using json_emit_fits [OF h1, of json_sep] fit False by auto
      have step: "bb_loop count (x # rest) st = bb_loop (Suc count) rest st2"
        using e1 e2 c \<open>count < max_instrs\<close> by (simp add: entry_json_def)
      have "\<exists>st'. bb_loop (Suc count) rest st2 = Inr st' \<and>
              holds_prefix st' (((p @ entry_json x) @ json_sep) @ ?J)"
        using Cons.IH [where count = "Suc count", OF h2] \<open>count < max_instrs\<close> fit False by simp
      then show ?thesis
        by (simp only: W step append_assoc)
    qed
  qed
qed


subsection \<open>Lengths of the formatted pieces\<close>

lemma length_bb_header: "length (bb_header bid) \<le> 40"
  using length_fmt_int_sint [of bid] by (simp add: bb_header_def)

lemma length_entry_json: "length (entry_json i) \<le> 297"
proof -
  have "length (fmt_str (instr_disassemble_to_buffer i disasm_bufsz)) \<le> 255"
    using length_fmt_str_le [of "instr_disassemble_to_buffer i disasm_bufsz"]
      length_disassemble_le [of i disasm_bufsz]
    by (simp add: disasm_bufsz_def)
  then show ?thesis
    by (simp add: entry_json_def instr_json_def)
qed

lemma length_entry_json_text: "length (entry_json i) \<le> 42 + length (instr_text i)"
proof -
  have "length (fmt_str (instr_disassemble_to_buffer i disasm_bufsz)) \<le> length (instr_text i)"
    using length_fmt_str_le [of "instr_disassemble_to_buffer i disasm_bufsz"]
      length_takeWhile_le [of "\<lambda>c. c \<noteq> nul" "instr_text i"]
    by (simp add: instr_disassemble_to_buffer_def)
  then show ?thesis
    by (simp add: entry_json_def instr_json_def)
qed

text \<open>A record whose objects are each at most \<open>m\<close> characters long.\<close>

lemma length_json_record_bound:
  assumes "\<forall>i \<in> set (bb_entries bb). length (entry_json i) \<le> m"
  shows "length (json_record bid bb) \<le> 43 + (m + 2) * length (bb_entries bb)"
proof -
  let ?es = "bb_entries bb"
  have "sum_list (map length (map entry_json ?es)) \<le> sum_list (map (\<lambda>_. m) ?es)"
    using assms by (simp add: o_def sum_list_mono)
  then have sum: "sum_list (map length (map entry_json ?es)) \<le> m * length ?es"
    by (simp add: sum_list_triv mult.commute)
  have "length (join_with json_sep (map entry_json ?es)) \<le> m * length ?es + 2 * (length ?es - 1)"
    using sum by (simp add: length_join_with json_sep_def)
  then show ?thesis
    using length_bb_header [of bid] by (simp add: json_record_def json_trailer_def algebra_simps)
qed

lemma length_json_record_le:
  "length (json_record bid bb) \<le> 43 + 299 * length (bb_entries bb)"
  using length_json_record_bound [of bb 297 bid] length_entry_json by simp

text \<open>
  The end of the callback: once the array holds a NUL-free text \<open>q\<close> with room for
  the trailer and its NUL, \<open>strlen\<close> hands exactly \<open>q\<close> and the trailer to the log.
\<close>

lemma json_finish_fits:
  assumes hp: "holds_prefix st q" and fit: "length q + length json_trailer < json_bufsz"
    and nf: "nul \<notin> set q"
  shows "ebind (json_emit st json_trailer) (\<lambda>st.
           (case strlen_opt (json_buf st) of
              None \<Rightarrow> Inl ReadOutOfBounds
            | Some n \<Rightarrow> Inr (take n (json_buf st)))) = Inr (q @ json_trailer)"
proof -
  let ?R = "q @ json_trailer"
  obtain st3 where e3: "json_emit st json_trailer = Inr st3" and h3: "holds_prefix st3 ?R"
    and t3: "take (length q + length json_trailer + 1) (json_buf st3) = q @ json_trailer @ [nul]"
    using json_emit_fits [OF hp fit] by auto
  have tk: "take (length ?R + 1) (json_buf st3) = ?R @ [nul]"
    using t3 by simp
  have "json_buf st3 = take (length ?R + 1) (json_buf st3) @ drop (length ?R + 1) (json_buf st3)"
    by (rule append_take_drop_id [symmetric])
  also have "\<dots> = (?R @ [nul]) @ drop (length ?R + 1) (json_buf st3)"
    by (simp only: tk)
  finally have split: "json_buf st3 = ?R @ nul # drop (length ?R + 1) (json_buf st3)"
    by simp
  have nfR: "nul \<notin> set ?R"
    using nf by (simp add: json_trailer_def)
  have "strlen_opt (json_buf st3) = Some (length ?R)"
    by (subst split) (rule strlen_opt_append_nul [OF nfR])
  moreover have "take (length ?R) (json_buf st3) = ?R"
    using h3 by (simp add: holds_prefix_def)
  ultimately show ?thesis
    by (simp add: e3)
qed

text \<open>
  When the intended line is shorter than the array, the chain of stores writes it
  followed by a NUL, and \<open>strlen\<close> hands exactly that line to the log.
\<close>

lemma bb_json_fits:
  assumes fit: "length (json_record bid bb) < json_bufsz"
  shows "bb_json bid bb junk = Inr (json_record bid bb)"
proof -
  let ?H = "bb_header bid"
  let ?J = "join_with json_sep (map entry_json (bb_entries bb))"
  have lenR: "length ?H + length ?J + length json_trailer < json_bufsz"
    using fit by (simp add: json_record_def)
  obtain st1 where e1: "json_emit (json_init junk) ?H = Inr st1" and h1: "holds_prefix st1 ?H"
    using json_emit_fits [OF holds_prefix_init, of ?H] lenR by auto
  obtain st2 where e2: "bb_loop 0 (app_instrs bb) st1 = Inr st2" and h2: "holds_prefix st2 (?H @ ?J)"
    using bb_loop_fits [OF h1, of 0 "app_instrs bb"] lenR by (auto simp: bb_entries_def)
  have "nul \<notin> set (?H @ ?J)"
    using nul_notin_json_record [of bid bb] by (simp add: json_record_def)
  then have "bb_json bid bb junk = Inr ((?H @ ?J) @ json_trailer)"
    using json_finish_fits [OF h2] lenR by (simp add: bb_json_def e1 e2)
  then show ?thesis
    by (simp add: json_record_def)
qed

subsection \<open>No store leaves the array\<close>

text \<open>
  \<open>offset_ok st\<close>: the array has its 4096 cells and the offset points into it or just
  past it. Every store of a text no longer than the array keeps it: a text that fits
  advances the offset to at most 4096; a text that does not fit makes \<open>dr_snprintf\<close>
  return \<open>-1\<close>, which moves the offset back by one, and that only happens from an
  offset above \<open>4096 - length s \<ge> 0\<close>.
\<close>

definition offset_ok :: "json_state \<Rightarrow> bool" where
  "offset_ok st \<longleftrightarrow>
     length (json_buf st) = json_bufsz \<and> 0 \<le> json_offset st \<and> json_offset st \<le> int json_bufsz"

lemma offset_ok_init: "offset_ok (json_init junk)"
  by (simp add: offset_ok_def json_init_def)

lemma json_emit_safe:
  assumes ok: "offset_ok st" and short: "length s \<le> json_bufsz"
  shows "\<exists>st'. json_emit st s = Inr st' \<and> offset_ok st'"
proof -
  have nn: "0 \<le> json_offset st" and len: "length (json_buf st) = json_bufsz"
    using ok by (simp_all add: offset_ok_def)
  obtain off where off: "json_offset st = int off"
    using nn nonneg_int_cases by blast
  have le: "off \<le> json_bufsz"
    using ok off by (simp add: offset_ok_def)
  let ?mx = "json_bufsz - off"
  have mx: "size_t_of_int (int json_bufsz - int off) = ?mx"
    using le by (simp add: json_bufsz_def)
  have wlen: "length (snprintf_out ?mx s) \<le> ?mx"
    by (auto simp: snprintf_out_def)
  have ret_ok: "0 \<le> int off + snprintf_ret ?mx s \<and> int off + snprintf_ret ?mx s \<le> int json_bufsz"
    using le short by (auto simp: snprintf_ret_def)
  have inb: "\<not> (int off < 0 \<or> length (json_buf st) < nat (int off) + length (snprintf_out ?mx s))"
    using wlen le len by simp
  have "json_emit st s =
          Inr (st\<lparr>json_buf := (if snprintf_out ?mx s = [] then json_buf st
                               else buf_write (json_buf st) off (snprintf_out ?mx s)),
                 json_offset := int off + snprintf_ret ?mx s\<rparr>)"
    using inb by (simp add: json_emit_def dr_snprintf_def Let_def off mx)
  moreover have "length (buf_write (json_buf st) off (snprintf_out ?mx s)) = json_bufsz"
    using wlen le len by (simp add: length_buf_write)
  ultimately show ?thesis
    using ret_ok len by (simp add: offset_ok_def)
qed

lemma bb_loop_safe:
  "offset_ok st \<Longrightarrow> \<exists>st'. bb_loop count xs st = Inr st' \<and> offset_ok st'"
proof (induction count xs st rule: bb_loop.induct)
  case (1 count st)
  then show ?case by simp
next
  case (2 count it rest st)
  show ?case
  proof (cases "count < max_instrs")
    case False
    with "2.prems" show ?thesis by simp
  next
    case True
    have "length (entry_json it) \<le> json_bufsz"
      using length_entry_json [of it] by (simp add: json_bufsz_def)
    then obtain st1 where e1: "json_emit st (entry_json it) = Inr st1" and ok1: "offset_ok st1"
      using json_emit_safe [OF "2.prems"] by blast
    have sep: "length json_sep \<le> json_bufsz"
      by (simp add: json_sep_def json_bufsz_def)
    obtain st2 where e2: "(if rest \<noteq> [] \<and> count + 1 < max_instrs then json_emit st1 json_sep
                           else Inr st1) = Inr st2" and ok2: "offset_ok st2"
    proof (cases "rest \<noteq> [] \<and> count + 1 < max_instrs")
      case True
      then show ?thesis using json_emit_safe [OF ok1 sep] that by auto
    next
      case False
      then show ?thesis using ok1 that by auto
    qed
    have "\<exists>st'. bb_loop (Suc count) rest st2 = Inr st' \<and> offset_ok st'"
      using "2.IH" [OF True ok2] .
    with True e1 e2 show ?thesis
      by (simp add: entry_json_def)
  qed
qed

text \<open>
  Whatever the block, identifier and stack contents, the serializer's stores all
  succeed and the callback's result is \<open>strlen\<close> of a well-formed final buffer.
\<close>

lemma bb_json_final_state:
  "\<exists>st3. offset_ok st3 \<and>
     bb_json bid bb junk = (case strlen_opt (json_buf st3) of None \<Rightarrow> Inl ReadOutOfBounds
                            | Some n \<Rightarrow> Inr (take n (json_buf st3)))"
proof -
  have hdr: "length (bb_header bid) \<le> json_bufsz"
    using length_bb_header [of bid] by (simp add: json_bufsz_def)
  have trl: "length json_trailer \<le> json_bufsz"
    by (simp add: json_trailer_def json_bufsz_def)
  obtain st1 where e1: "json_emit (json_init junk) (bb_header bid) = Inr st1" and ok1: "offset_ok st1"
    using json_emit_safe [OF offset_ok_init hdr] by blast
  obtain st2 where e2: "bb_loop 0 (app_instrs bb) st1 = Inr st2" and ok2: "offset_ok st2"
    using bb_loop_safe [OF ok1] by blast
  obtain st3 where e3: "json_emit st2 json_trailer = Inr st3" and ok3: "offset_ok st3"
    using json_emit_safe [OF ok2 trl] by blast
  have "bb_json bid bb junk =
          (case strlen_opt (json_buf st3) of None \<Rightarrow> Inl ReadOutOfBounds
           | Some n \<Rightarrow> Inr (take n (json_buf st3)))"
    by (simp add: bb_json_def e1 e2 e3)
  with ok3 show ?thesis
    by blast
qed

lemma bb_json_Inr_short:
  assumes "bb_json bid bb junk = Inr line"
  shows "length line < json_bufsz \<and> nul \<notin> set line"
proof -
  obtain st3 where ok3: "offset_ok st3"
    and res: "bb_json bid bb junk = (case strlen_opt (json_buf st3) of None \<Rightarrow> Inl ReadOutOfBounds
                                     | Some n \<Rightarrow> Inr (take n (json_buf st3)))"
    using bb_json_final_state by blast
  then obtain n where n: "strlen_opt (json_buf st3) = Some n" and l: "line = take n (json_buf st3)"
    using assms by (cases "strlen_opt (json_buf st3)") simp_all
  have "n < json_bufsz"
    using strlen_opt_Some_less [OF n] ok3 by (simp add: offset_ok_def)
  with l strlen_opt_Some_take [OF n] show ?thesis
    by simp
qed

text \<open>
  C3. Memory safety of the serializer: for every block, identifier and initial
  contents of the stack array, no \<open>dr_snprintf\<close> store of \<open>bb_instrumentation\<close> leaves
  \<open>json_buf\<close>. The callback either hands a NUL-free line shorter than the array to the
  log, or its final \<open>strlen(json_buf)\<close> finds no terminator inside the array (which
  happens: see \<open>bb_json_exact_fill_overread\<close>).
\<close>

theorem bb_json_stores_in_bounds:
  "bb_json bid bb junk = Inl ReadOutOfBounds \<or>
   (\<exists>line. bb_json bid bb junk = Inr line \<and> length line < json_bufsz \<and> nul \<notin> set line)"
proof (cases "bb_json bid bb junk")
  case (Inl e)
  obtain st3 where "offset_ok st3"
    and "bb_json bid bb junk = (case strlen_opt (json_buf st3) of None \<Rightarrow> Inl ReadOutOfBounds
                                | Some n \<Rightarrow> Inr (take n (json_buf st3)))"
    using bb_json_final_state by blast
  with Inl show ?thesis
    by (cases "strlen_opt (json_buf st3)") simp_all
next
  case (Inr line)
  then show ?thesis
    using bb_json_Inr_short [OF Inr] by simp
qed

text \<open>
  C14. The callback hands the intended line to the log exactly when that line is
  shorter than \<open>json_buf\<close>, whatever the stack held before: a record of 4096
  characters or more is never written intact (it is cut, malformed, or read past the
  array), and a shorter one always is.
\<close>

theorem bb_json_exact_iff:
  "bb_json bid bb junk = Inr (json_record bid bb) \<longleftrightarrow> length (json_record bid bb) < json_bufsz"
proof
  assume "bb_json bid bb junk = Inr (json_record bid bb)"
  then show "length (json_record bid bb) < json_bufsz"
    using bb_json_Inr_short by blast
next
  assume "length (json_record bid bb) < json_bufsz"
  then show "bb_json bid bb junk = Inr (json_record bid bb)"
    by (rule bb_json_fits)
qed

subsection \<open>A line that does not fit\<close>

text \<open>
  A store of a text longer than the space left writes the space full, without a NUL,
  and \<open>dr_snprintf\<close> returns \<open>-1\<close>: the offset moves back one character, so the next
  store overwrites the last character written before the overflowing one.
\<close>

lemma json_emit_overflow:
  assumes hp: "holds_prefix st p" and ne: "p \<noteq> []"
    and short: "length p < json_bufsz" and over: "json_bufsz < length p + length s"
  shows "\<exists>st'. json_emit st s = Inr st' \<and> holds_prefix st' (butlast p)"
proof -
  let ?mx = "json_bufsz - length p"
  let ?b = "buf_write (json_buf st) (length p) (take ?mx s)"
  have off: "json_offset st = int (length p)" and len: "length (json_buf st) = json_bufsz"
    and pre: "take (length p) (json_buf st) = p"
    using hp by (simp_all add: holds_prefix_def)
  have mx: "size_t_of_int (int json_bufsz - int (length p)) = ?mx"
    using short by (simp add: json_bufsz_def)
  have ns: "\<not> length s \<le> ?mx"
    using short over by arith
  have out: "snprintf_out ?mx s = take ?mx s" and ret: "snprintf_ret ?mx s = -1"
    using ns by (simp_all add: snprintf_out_def snprintf_ret_def)
  have wne: "take ?mx s \<noteq> []"
    using short over by (cases s) auto
  have emit: "json_emit st s = Inr (st\<lparr>json_buf := ?b, json_offset := int (length p) - 1\<rparr>)"
    using short over len wne by (simp add: json_emit_def dr_snprintf_def Let_def off mx out ret)
  have blen: "length ?b = json_bufsz"
    using short over len by (simp add: length_buf_write)
  have "take (length p) ?b = p"
    using short len pre by (simp add: take_buf_write)
  then have "take (length p - 1) ?b = butlast p"
    by (metis diff_le_self take_take min.absorb1 butlast_conv_take)
  moreover have "Suc 0 \<le> length p"
    using ne by (cases p) auto
  ultimately show ?thesis
    using emit blen by (simp add: holds_prefix_def)
qed

text \<open>
  A store that fills the space left exactly writes no NUL and \<open>dr_snprintf\<close> returns
  its length: the offset reaches the end of the array. A later store then gets size
  0, writes nothing and returns \<open>-1\<close>.
\<close>

lemma json_emit_exact:
  assumes hp: "holds_prefix st p" and ex: "length p + length s = json_bufsz" and ne: "s \<noteq> []"
  shows "\<exists>st'. json_emit st s = Inr st' \<and> json_buf st' = p @ s \<and> json_offset st' = int json_bufsz"
proof -
  have off: "json_offset st = int (length p)" and len: "length (json_buf st) = json_bufsz"
    and pre: "take (length p) (json_buf st) = p"
    using hp by (simp_all add: holds_prefix_def)
  have mx: "size_t_of_int (int json_bufsz - int (length p)) = length s"
    using ex by (simp add: json_bufsz_def)
  have out: "snprintf_out (length s) s = s" and ret: "snprintf_ret (length s) s = int (length s)"
    by (simp_all add: snprintf_out_def snprintf_ret_def)
  have "buf_write (json_buf st) (length p) s = p @ s"
    using len pre ex by (simp add: buf_write_def)
  then show ?thesis
    using ne len ex by (simp add: json_emit_def dr_snprintf_def Let_def off mx out ret)
qed

lemma json_emit_full:
  assumes "json_offset st = int json_bufsz" and "s \<noteq> []"
  shows "json_emit st s = Inr (st\<lparr>json_offset := int json_bufsz - 1\<rparr>)"
  using assms by (simp add: json_emit_def dr_snprintf_def snprintf_out_def snprintf_ret_def size_t_of_int_def)

lemma bb_loop_done: "take (max_instrs - count) xs = [] \<Longrightarrow> bb_loop count xs st = Inr st"
  by (cases xs) auto

text \<open>
  When everything before the last object the loop prints fits, the loop has printed
  that text, separator included, and ends with the store of the last object: no
  separator follows it, since it is the last application instruction or the 64th.
\<close>

lemma bb_loop_last:
  assumes "holds_prefix st p"
    and "take (max_instrs - count) xs = ys @ [z]"
    and "length (p @ concat (map (\<lambda>y. entry_json y @ json_sep) ys)) < json_bufsz"
  shows "\<exists>st1. holds_prefix st1 (p @ concat (map (\<lambda>y. entry_json y @ json_sep) ys)) \<and>
               bb_loop count xs st = json_emit st1 (entry_json z)"
  using assms
proof (induction xs arbitrary: count st p ys)
  case Nil
  then show ?case by simp
next
  case (Cons x rest)
  have lt: "count < max_instrs"
    using Cons.prems(2) by (cases "max_instrs - count") auto
  have tk: "take (max_instrs - count) (x # rest) = x # take (max_instrs - Suc count) rest"
    using lt by (simp add: Suc_diff_Suc [symmetric])
  show ?case
  proof (cases ys)
    case Nil
    with Cons.prems(2) tk have xz: "x = z" and none: "take (max_instrs - Suc count) rest = []"
      by simp_all
    have "bb_loop count (x # rest) st = json_emit st (entry_json z)"
    proof (cases "rest = []")
      case True
      then show ?thesis
        using lt xz by (simp add: entry_json_def)
    next
      case False
      with none have "\<not> Suc count < max_instrs"
        by auto
      moreover have "bb_loop (Suc count) rest = Inr"
        by (rule ext) (rule bb_loop_done [OF none])
      ultimately show ?thesis
        using lt xz by (simp add: entry_json_def)
    qed
    with Cons.prems(1) Nil show ?thesis
      by auto
  next
    case (Cons y ys')
    with Cons.prems(2) tk have xy: "x = y"
      and more: "take (max_instrs - Suc count) rest = ys' @ [z]"
      by simp_all
    have sep: "rest \<noteq> [] \<and> count + 1 < max_instrs"
      using more by (cases "max_instrs - Suc count") auto
    let ?p' = "p @ entry_json x @ json_sep"
    have eq: "p @ concat (map (\<lambda>y. entry_json y @ json_sep) ys) =
                ?p' @ concat (map (\<lambda>y. entry_json y @ json_sep) ys')"
      using Cons xy by simp
    obtain st1 where e1: "json_emit st (entry_json x) = Inr st1"
      and h1: "holds_prefix st1 (p @ entry_json x)"
      using json_emit_fits [OF Cons.prems(1), of "entry_json x"] Cons.prems(3) eq by auto
    obtain st2 where e2: "json_emit st1 json_sep = Inr st2" and h2: "holds_prefix st2 ?p'"
      using json_emit_fits [OF h1, of json_sep] Cons.prems(3) eq by auto
    have "\<exists>st3. holds_prefix st3 (?p' @ concat (map (\<lambda>y. entry_json y @ json_sep) ys')) \<and>
            bb_loop (Suc count) rest st2 = json_emit st3 (entry_json z)"
      using Cons.IH [OF h2 more] Cons.prems(3) eq by simp
    moreover have "bb_loop count (x # rest) st = bb_loop (Suc count) rest st2"
      using lt e1 e2 sep by (simp add: entry_json_def)
    ultimately show ?thesis
      using eq by simp
  qed
qed

text \<open>
  When the last object the loop prints does not fit (and everything before it does),
  the loop ends with the text printed so far, separator included, minus its last
  character.
\<close>

lemma bb_loop_last_overflows:
  assumes "holds_prefix st p" and "p \<noteq> []"
    and "take (max_instrs - count) xs = ys @ [z]"
    and "length (p @ concat (map (\<lambda>y. entry_json y @ json_sep) ys)) < json_bufsz"
    and "json_bufsz < length (p @ concat (map (\<lambda>y. entry_json y @ json_sep) ys)) + length (entry_json z)"
  shows "\<exists>st'. bb_loop count xs st = Inr st' \<and>
           holds_prefix st' (butlast (p @ concat (map (\<lambda>y. entry_json y @ json_sep) ys)))"
proof -
  obtain st1 where h1: "holds_prefix st1 (p @ concat (map (\<lambda>y. entry_json y @ json_sep) ys))"
    and l: "bb_loop count xs st = json_emit st1 (entry_json z)"
    using bb_loop_last [OF assms(1,3,4)] by blast
  have "p @ concat (map (\<lambda>y. entry_json y @ json_sep) ys) \<noteq> []"
    using assms(2) by simp
  from json_emit_overflow [OF h1 this assms(4,5)] show ?thesis
    unfolding l .
qed

text \<open>
  C4. Overflow of the last entry: when the line up to the last listed instruction
  (separator included) still fits but that instruction's object does not, the
  \<open>-1\<close> of \<open>dr_snprintf\<close> moves \<open>json_offset\<close> back one character and the trailer
  is written over the separator's blank. The line written to the log drops the last
  instruction and ends in \<open>,]}\<close>: a trailing comma, which is not JSON.
\<close>

theorem bb_json_last_entry_overflow:
  assumes entries: "bb_entries bb = ys @ [z]"
    and room: "length (bb_header bid @ concat (map (\<lambda>y. entry_json y @ json_sep) ys)) + 2 < json_bufsz"
    and over: "json_bufsz < length (bb_header bid @ concat (map (\<lambda>y. entry_json y @ json_sep) ys))
                             + length (entry_json z)"
  shows "bb_json bid bb junk =
           Inr (butlast (bb_header bid @ concat (map (\<lambda>y. entry_json y @ json_sep) ys)) @ json_trailer)"
proof -
  let ?H = "bb_header bid"
  let ?P = "?H @ concat (map (\<lambda>y. entry_json y @ json_sep) ys)"
  have hne: "?H \<noteq> []"
    by (simp add: bb_header_def)
  obtain st1 where e1: "json_emit (json_init junk) ?H = Inr st1" and h1: "holds_prefix st1 ?H"
    using json_emit_fits [OF holds_prefix_init, of ?H] room by auto
  have tk: "take (max_instrs - 0) (app_instrs bb) = ys @ [z]"
    using entries by (simp add: bb_entries_def)
  obtain st2 where e2: "bb_loop 0 (app_instrs bb) st1 = Inr st2" and h2: "holds_prefix st2 (butlast ?P)"
    using bb_loop_last_overflows [OF h1 hne tk] room over by auto
  have "nul \<notin> set ?P"
    by (auto simp: bb_header_def json_sep_def)
  then have nf: "nul \<notin> set (butlast ?P)"
    by (meson in_set_butlastD)
  have "0 < length ?H"
    using hne by simp
  then have "length (butlast ?P) + length json_trailer = length ?P + 2"
    by (simp add: json_trailer_def)
  then have "length (butlast ?P) + length json_trailer < json_bufsz"
    using room by linarith
  then show ?thesis
    using json_finish_fits [OF h2 _ nf] by (simp add: bb_json_def e1 e2)
qed

theorem bb_json_last_entry_overflow_witness:
  "bb_entries (replicate 14 \<lparr>instr_is_app = True, instr_app_pc = 0x1000, instr_text = replicate 300 CHR ''a''\<rparr>) =
     replicate 13 \<lparr>instr_is_app = True, instr_app_pc = 0x1000, instr_text = replicate 300 CHR ''a''\<rparr> @
     [\<lparr>instr_is_app = True, instr_app_pc = 0x1000, instr_text = replicate 300 CHR ''a''\<rparr>] \<and>
   length (bb_header 0 @ concat (map (\<lambda>y. entry_json y @ json_sep)
     (replicate 13 \<lparr>instr_is_app = True, instr_app_pc = 0x1000, instr_text = replicate 300 CHR ''a''\<rparr>))) + 2 < json_bufsz \<and>
   json_bufsz < length (bb_header 0 @ concat (map (\<lambda>y. entry_json y @ json_sep)
     (replicate 13 \<lparr>instr_is_app = True, instr_app_pc = 0x1000, instr_text = replicate 300 CHR ''a''\<rparr>)))
     + length (entry_json \<lparr>instr_is_app = True, instr_app_pc = 0x1000, instr_text = replicate 300 CHR ''a''\<rparr>) \<and>
   bb_json 0 (replicate 14 \<lparr>instr_is_app = True, instr_app_pc = 0x1000, instr_text = replicate 300 CHR ''a''\<rparr>) (\<lambda>_. CHR ''?'') =
     Inr (butlast (bb_header 0 @ concat (map (\<lambda>y. entry_json y @ json_sep)
       (replicate 13 \<lparr>instr_is_app = True, instr_app_pc = 0x1000, instr_text = replicate 300 CHR ''a''\<rparr>))) @ json_trailer)"
proof -
  let ?i = "\<lparr>instr_is_app = True, instr_app_pc = 0x1000, instr_text = replicate 300 CHR ''a''\<rparr> :: instr"
  have r: "replicate 14 ?i = replicate 13 ?i @ [?i]"
    by (simp add: numeral_eq_Suc)
  have e: "bb_entries (replicate 14 ?i) = replicate 13 ?i @ [?i]"
    by (simp add: bb_entries_def app_instrs_def max_instrs_def r)
  have l1: "length (entry_json ?i) = 297"
    by (simp add: entry_json_def instr_json_def instr_disassemble_to_buffer_def fmt_str_def disasm_bufsz_def)
  have l2: "length (bb_header 0) = 30"
    by (simp add: bb_header_def fmt_int_def dec_nat.simps)
  have l3: "length (json_sep) = 2"
    by (simp add: json_sep_def)
  have lp: "length (bb_header 0 @ concat (map (\<lambda>y. entry_json y @ json_sep) (replicate 13 ?i))) = 3917"
    by (simp add: l1 l2 l3 length_concat sum_list_replicate)
  show ?thesis
    using bb_json_last_entry_overflow [OF e, of 0 "\<lambda>_. CHR ''?''"] e lp l1
    by (simp add: json_bufsz_def)
qed

subsection \<open>The cap\<close>

text \<open>
  C16. The loop over the whole instruction list is equivalent to the loop over its
  first \<open>max_instrs - count\<close> instructions: the \<open>count < max_instrs\<close> test stops the
  iteration at the 64th instruction, and the separator guard's \<open>count + 1 < max_instrs\<close>
  makes the 64th object the last one printed, exactly as if the block ended there.
\<close>

theorem bb_loop_cap:
  "bb_loop count xs st = bb_loop count (take (max_instrs - count) xs) st"
proof (induction xs arbitrary: count st)
  case (Cons x rest)
  show ?case
  proof (cases "count < max_instrs")
    case True
    then have tk: "take (max_instrs - count) (x # rest) = x # take (max_instrs - Suc count) rest"
      by (simp add: Suc_diff_Suc [symmetric])
    have sep: "(take (max_instrs - Suc count) rest \<noteq> [] \<and> count + 1 < max_instrs) =
                 (rest \<noteq> [] \<and> count + 1 < max_instrs)"
      by auto
    have ih: "bb_loop (Suc count) rest = bb_loop (Suc count) (take (max_instrs - Suc count) rest)"
      by (rule ext) (rule Cons.IH)
    show ?thesis
      by (simp only: tk bb_loop.simps sep ih)
  next
    case False
    then show ?thesis by simp
  qed
qed simp

subsection \<open>A record that fills the buffer exactly\<close>

lemma bb_json_exact_fill_fails:
  assumes entries: "bb_entries bb = ys @ [z]"
    and exact: "length (bb_header bid @ concat (map (\<lambda>y. entry_json y @ json_sep) ys))
                  + length (entry_json z) = json_bufsz"
  shows "bb_json bid bb junk = Inl ReadOutOfBounds"
proof -
  let ?H = "bb_header bid"
  let ?P = "?H @ concat (map (\<lambda>y. entry_json y @ json_sep) ys)"
  have zne: "entry_json z \<noteq> []"
    by (simp add: entry_json_def instr_json_def)
  then have room: "length ?P < json_bufsz"
    using exact by (cases "entry_json z") auto
  obtain st1 where e1: "json_emit (json_init junk) ?H = Inr st1" and h1: "holds_prefix st1 ?H"
    using json_emit_fits [OF holds_prefix_init, of ?H] room by auto
  have tk: "take (max_instrs - 0) (app_instrs bb) = ys @ [z]"
    using entries by (simp add: bb_entries_def)
  obtain st2 where h2: "holds_prefix st2 ?P" and l: "bb_loop 0 (app_instrs bb) st1 = json_emit st2 (entry_json z)"
    using bb_loop_last [OF h1 tk] room by auto
  obtain st3 where e3: "json_emit st2 (entry_json z) = Inr st3"
    and b3: "json_buf st3 = ?P @ entry_json z" and o3: "json_offset st3 = int json_bufsz"
    using json_emit_exact [OF h2 exact zne] by blast
  have e4: "json_emit st3 json_trailer = Inr (st3\<lparr>json_offset := int json_bufsz - 1\<rparr>)"
    using json_emit_full [OF o3] by (simp add: json_trailer_def)
  have "nul \<notin> set (?P @ entry_json z)"
    by (auto simp: bb_header_def json_sep_def)
  then have "strlen_opt (json_buf st3) = None"
    using b3 by (simp add: strlen_opt_None_iff)
  then show ?thesis
    by (simp add: bb_json_def e1 l e3 e4)
qed

text \<open>
  A block that fills \<open>json_buf\<close> exactly: thirteen instructions whose disassembly is at
  the 255-character limit, then one of 137 characters.
\<close>

lemma exact_fill_block:
  fixes i z :: instr
  assumes "i = \<lparr>instr_is_app = True, instr_app_pc = 0x1000, instr_text = replicate 255 CHR ''a''\<rparr>"
    and "z = \<lparr>instr_is_app = True, instr_app_pc = 0x1000, instr_text = replicate 137 CHR ''b''\<rparr>"
  shows "bb_entries (replicate 13 i @ [z]) = replicate 13 i @ [z] \<and>
         length (bb_header 0 @ concat (map (\<lambda>y. entry_json y @ json_sep) (replicate 13 i)))
           + length (entry_json z) = json_bufsz"
proof -
  have l1: "length (entry_json i) = 297"
    using assms by (simp add: entry_json_def instr_json_def instr_disassemble_to_buffer_def fmt_str_def disasm_bufsz_def)
  have l2: "length (bb_header 0) = 30"
    by (simp add: bb_header_def fmt_int_def dec_nat.simps)
  have lz: "length (entry_json z) = 179"
    using assms by (simp add: entry_json_def instr_json_def instr_disassemble_to_buffer_def fmt_str_def disasm_bufsz_def)
  have "bb_entries (replicate 13 i @ [z]) = replicate 13 i @ [z]"
    using assms by (simp add: bb_entries_def app_instrs_def max_instrs_def)
  moreover have "length (bb_header 0 @ concat (map (\<lambda>y. entry_json y @ json_sep) (replicate 13 i))) = 3917"
    by (simp add: l1 l2 json_sep_def length_concat sum_list_replicate)
  ultimately show ?thesis
    using lz by (simp add: json_bufsz_def)
qed

text \<open>
  C5. Read past the end of \<open>json_buf\<close>: when the line up to and including the last
  listed instruction's object is exactly 4096 characters, that object is stored
  without a NUL, the trailer's \<open>dr_snprintf\<close> gets size 0 and stores nothing, and
  \<open>json_buf\<close> holds no NUL at all: \<open>strlen(json_buf)\<close> reads past the array, whatever
  the stack held before.
\<close>

theorem bb_json_exact_fill_overread:
  assumes entries: "bb_entries bb = ys @ [z]"
    and exact: "length (bb_header bid @ concat (map (\<lambda>y. entry_json y @ json_sep) ys))
                  + length (entry_json z) = json_bufsz"
  shows "bb_json bid bb junk = Inl ReadOutOfBounds"
  using entries exact by (rule bb_json_exact_fill_fails)

theorem bb_json_exact_fill_overread_witness:
  "bb_entries (replicate 13 \<lparr>instr_is_app = True, instr_app_pc = 0x1000, instr_text = replicate 255 CHR ''a''\<rparr> @
                 [\<lparr>instr_is_app = True, instr_app_pc = 0x1000, instr_text = replicate 137 CHR ''b''\<rparr>]) =
     replicate 13 \<lparr>instr_is_app = True, instr_app_pc = 0x1000, instr_text = replicate 255 CHR ''a''\<rparr> @
     [\<lparr>instr_is_app = True, instr_app_pc = 0x1000, instr_text = replicate 137 CHR ''b''\<rparr>] \<and>
   length (bb_header 0 @ concat (map (\<lambda>y. entry_json y @ json_sep)
     (replicate 13 \<lparr>instr_is_app = True, instr_app_pc = 0x1000, instr_text = replicate 255 CHR ''a''\<rparr>)))
     + length (entry_json \<lparr>instr_is_app = True, instr_app_pc = 0x1000, instr_text = replicate 137 CHR ''b''\<rparr>)
     = json_bufsz \<and>
   bb_json 0 (replicate 13 \<lparr>instr_is_app = True, instr_app_pc = 0x1000, instr_text = replicate 255 CHR ''a''\<rparr> @
                 [\<lparr>instr_is_app = True, instr_app_pc = 0x1000, instr_text = replicate 137 CHR ''b''\<rparr>])
     (\<lambda>_. CHR ''?'') = Inl ReadOutOfBounds"
proof -
  let ?i = "\<lparr>instr_is_app = True, instr_app_pc = 0x1000, instr_text = replicate 255 CHR ''a''\<rparr> :: instr"
  let ?z = "\<lparr>instr_is_app = True, instr_app_pc = 0x1000, instr_text = replicate 137 CHR ''b''\<rparr> :: instr"
  have e: "bb_entries (replicate 13 ?i @ [?z]) = replicate 13 ?i @ [?z]"
    and x: "length (bb_header 0 @ concat (map (\<lambda>y. entry_json y @ json_sep) (replicate 13 ?i)))
              + length (entry_json ?z) = json_bufsz"
    using exact_fill_block [of ?i ?z] by simp_all
  show ?thesis
    using bb_json_exact_fill_overread [OF e x, of "\<lambda>_. CHR ''?''"] e x by simp
qed

subsection \<open>Blocks that always fit\<close>

text \<open>
  C17. A block with at most 13 application instructions is always serialized exactly:
  even with every disassembly at the 255-character limit its line is at most 3930
  characters, below the 4096 of \<open>json_buf\<close>, so \<open>bb_instrumentation\<close> hands the
  intended JSON line, and nothing else, to the log.
\<close>

theorem bb_json_small_block_exact:
  assumes "length (app_instrs bb) \<le> 13"
  shows "bb_json bid bb junk = Inr (json_record bid bb)"
proof -
  have "length (bb_entries bb) \<le> 13"
    using assms by (simp add: bb_entries_def)
  then have "length (json_record bid bb) \<le> 43 + 299 * 13"
    using length_json_record_le [of bid bb] by linarith
  then have "length (json_record bid bb) < json_bufsz"
    by (simp add: json_bufsz_def)
  then show ?thesis
    by (rule bb_json_fits)
qed

theorem bb_json_small_block_exact_witness:
  "length (app_instrs [\<lparr>instr_is_app = True, instr_app_pc = 0x1000, instr_text = ''ret''\<rparr>]) \<le> 13 \<and>
   bb_json 1 [\<lparr>instr_is_app = True, instr_app_pc = 0x1000, instr_text = ''ret''\<rparr>] (\<lambda>_. CHR ''?'') =
     Inr (json_record 1 [\<lparr>instr_is_app = True, instr_app_pc = 0x1000, instr_text = ''ret''\<rparr>])"
  using bb_json_small_block_exact
    [of "[\<lparr>instr_is_app = True, instr_app_pc = 0x1000, instr_text = ''ret''\<rparr>]" 1 "\<lambda>_. CHR ''?''"]
  by (simp add: app_instrs_def)

end
