(* ===== verification/Sink.thy ===== *)
theory Sink
  imports DR_API
begin

text \<open>
  The sink: the DynamoRIO file API through which the client owns its log
  (\<open>dr_open_file\<close> with \<open>DR_FILE_WRITE_OVERWRITE\<close>, \<open>dr_write_file\<close>,
  \<open>dr_close_file\<close>), over an explicit model of the file system: the contents of each
  path, which paths may be created, the open descriptors, whether the device
  fails writes and how many bytes it still has room for. The lemmas state the
  contract the recorder relies on: opening truncates, a write on a device with room
  appends exactly its bytes, a write on a nearly full device appends only the bytes
  that fit (a short write), other files are untouched.
\<close>

datatype file_t = INVALID_FILE | FD nat

record world =
  files :: "string \<Rightarrow> string option"
  creatable :: "string \<Rightarrow> bool"
  fds :: "nat \<Rightarrow> string option"
  next_fd :: nat
  io_error :: bool
  room :: "nat option"    \<comment> \<open>free bytes on the device; \<open>None\<close>: never fills\<close>

definition file_contents :: "world \<Rightarrow> string \<Rightarrow> string" where
  "file_contents w p = (case files w p of None \<Rightarrow> [] | Some c \<Rightarrow> c)"

text \<open>
  \<open>dr_open_file(name, DR_FILE_WRITE_OVERWRITE)\<close>: create or truncate; truncating
  frees the bytes the old contents used.
\<close>

definition dr_open_file_overwrite :: "world \<Rightarrow> string \<Rightarrow> world \<times> file_t" where
  "dr_open_file_overwrite w p =
     (if creatable w p
      then (w\<lparr>files := (files w)(p \<mapsto> []), fds := (fds w)(next_fd w \<mapsto> p),
              next_fd := Suc (next_fd w),
              room := map_option (\<lambda>r. r + length (file_contents w p)) (room w)\<rparr>, FD (next_fd w))
      else (w, INVALID_FILE))"

text \<open>
  \<open>dr_write_file(f, buf, size)\<close>: append at the end of an open file and return the
  number of bytes written, or \<open>-1\<close> for an invalid or closed descriptor or a failing
  device. Like the \<open>write\<close> system call it wraps, it writes as many bytes as the
  device has room for: fewer than asked when the device fills up (a short write),
  and \<open>-1\<close> (\<open>ENOSPC\<close>) when there is no room at all for a non-empty buffer.
\<close>

definition dr_write_file :: "world \<Rightarrow> file_t \<Rightarrow> string \<Rightarrow> world \<times> int" where
  "dr_write_file w f d =
     (case f of
        INVALID_FILE \<Rightarrow> (w, -1)
      | FD n \<Rightarrow> (case fds w n of
                  None \<Rightarrow> (w, -1)
                | Some p \<Rightarrow>
                    if io_error w then (w, -1)
                    else (case room w of
                            None \<Rightarrow> (w\<lparr>files := (files w)(p \<mapsto> file_contents w p @ d)\<rparr>, int (length d))
                          | Some r \<Rightarrow>
                              if r = 0 \<and> d \<noteq> [] then (w, -1)
                              else (w\<lparr>files := (files w)(p \<mapsto> file_contents w p @ take r d),
                                      room := Some (r - min r (length d))\<rparr>, int (min r (length d))))))"

definition dr_close_file :: "world \<Rightarrow> file_t \<Rightarrow> world" where
  "dr_close_file w f = (case f of INVALID_FILE \<Rightarrow> w | FD n \<Rightarrow> w\<lparr>fds := (fds w)(n := None)\<rparr>)"

text \<open>
  Well-formed descriptor table: every open descriptor names an existing file, and no
  descriptor at or beyond \<open>next_fd\<close> is open (so a new one is fresh).
\<close>

definition world_wf :: "world \<Rightarrow> bool" where
  "world_wf w \<longleftrightarrow>
     (\<forall>n p. fds w n = Some p \<longrightarrow> files w p \<noteq> None) \<and> (\<forall>n. next_fd w \<le> n \<longrightarrow> fds w n = None)"

subsection \<open>The contract\<close>

lemma dr_open_file_overwrite_ok:
  assumes "creatable w p"
  shows "dr_open_file_overwrite w p =
           (w\<lparr>files := (files w)(p \<mapsto> []), fds := (fds w)(next_fd w \<mapsto> p),
              next_fd := Suc (next_fd w),
              room := map_option (\<lambda>r. r + length (file_contents w p)) (room w)\<rparr>, FD (next_fd w))"
  using assms by (simp add: dr_open_file_overwrite_def)

lemma dr_open_file_overwrite_fail:
  "\<not> creatable w p \<Longrightarrow> dr_open_file_overwrite w p = (w, INVALID_FILE)"
  by (simp add: dr_open_file_overwrite_def)

lemma dr_write_file_appends:
  assumes "fds w n = Some p" and "\<not> io_error w" and "room w = None"
  shows "dr_write_file w (FD n) d = (w\<lparr>files := (files w)(p \<mapsto> file_contents w p @ d)\<rparr>, int (length d))"
  using assms by (simp add: dr_write_file_def)

lemma dr_write_file_short:
  assumes "fds w n = Some p" and "\<not> io_error w" and "room w = Some r"
  shows "file_contents (fst (dr_write_file w (FD n) d)) p = file_contents w p @ take r d \<and>
         room (fst (dr_write_file w (FD n) d)) = Some (r - min r (length d))"
  using assms by (simp add: dr_write_file_def file_contents_def)

lemma dr_write_file_fails:
  "io_error w \<Longrightarrow> dr_write_file w f d = (w, -1)"
  by (simp add: dr_write_file_def split: file_t.split option.split)

lemma dr_write_file_frame:
  "fds (fst (dr_write_file w f d)) = fds w \<and> creatable (fst (dr_write_file w f d)) = creatable w \<and>
   io_error (fst (dr_write_file w f d)) = io_error w \<and> next_fd (fst (dr_write_file w f d)) = next_fd w \<and>
   (room w = None \<longrightarrow> room (fst (dr_write_file w f d)) = None)"
  by (simp add: dr_write_file_def split: file_t.split option.split)

end
