(* ===== verification/Recorder.thy ===== *)
theory Recorder
  imports Serializer Sink
begin

text \<open>
  The block recorder and the client's lifecycle, \<open>src/client_bbv/client_bbv.c\<close>: the
  three statics (\<open>log_file\<close>, \<open>mutex\<close>, \<open>bb_id\<close>), the registrations and the log
  creation of \<open>dr_client_main\<close>, the callback \<open>bb_instrumentation\<close> (lock, take
  and increment \<open>bb_id\<close>, serialize, write, unlock) and \<open>event_exit\<close>. A run of the
  client is a sequence of callbacks executed one after the other, as the mutex
  serializes them. The lemmas state what each entry point does on every branch, and
  that a run writes one record per callback with identifiers \<open>0, 1, 2, \<dots>\<close>.
\<close>

subsection \<open>The client's global state\<close>

text \<open>
  The statics of the file together with the registrations the client made with
  DynamoRIO and the file system it writes to. \<open>bb_id\<close> is a C \<open>int\<close>: a 32-bit
  word printed with \<open>%d\<close>, that is through \<open>sint\<close>.
\<close>

record client =
  log_file :: file_t
  mutex :: "mutex_st option"
  bb_id :: "32 word"
  client_name :: "(string \<times> string) option"   \<comment> \<open>as set by \<open>dr_set_client_name\<close>\<close>
  drmgr_ready :: bool
  drutil_ready :: bool
  exit_registered :: bool
  bb_registered :: bool      \<comment> \<open>\<open>bb_instrumentation\<close> is drmgr's insertion callback\<close>
  dr_logged :: "string list"   \<comment> \<open>the messages of \<open>dr_log\<close>\<close>
  world :: world

text \<open>Zero-initialised statics at load time: \<open>log_file\<close> is descriptor 0, \<open>mutex\<close> is NULL.\<close>

definition client_load :: "world \<Rightarrow> client" where
  "client_load w =
     \<lparr>log_file = FD 0, mutex = None, bb_id = 0, client_name = None, drmgr_ready = False,
      drutil_ready = False, exit_registered = False, bb_registered = False, dr_logged = [], world = w\<rparr>"

definition log_name :: string where
  "log_name = ''bbv_output.jsonl''"

subsection \<open>The DynamoRIO calls of the lifecycle\<close>

text \<open>
  What each call the client makes at initialisation and exit does to the state
  the client can observe, from DynamoRIO's documentation. \<open>drmgr_exit\<close> drops the
  callbacks registered through drmgr; \<open>dr_log\<close> writes to DynamoRIO's own log
  (a debug build run with a log level of at least the call's), never to the
  client's file.
\<close>

definition dr_set_client_name :: "string \<Rightarrow> string \<Rightarrow> client \<Rightarrow> client" where
  "dr_set_client_name name report_url c = c\<lparr>client_name := Some (name, report_url)\<rparr>"

definition drmgr_init :: "client \<Rightarrow> client" where
  "drmgr_init c = c\<lparr>drmgr_ready := True\<rparr>"

definition drutil_init :: "client \<Rightarrow> client" where
  "drutil_init c = c\<lparr>drutil_ready := True\<rparr>"

definition dr_register_exit_event :: "client \<Rightarrow> client" where
  "dr_register_exit_event c = c\<lparr>exit_registered := True\<rparr>"

definition drmgr_register_bb_instrumentation_event :: "client \<Rightarrow> client" where
  "drmgr_register_bb_instrumentation_event c = c\<lparr>bb_registered := True\<rparr>"

definition dr_mutex_create :: "client \<Rightarrow> client" where
  "dr_mutex_create c = c\<lparr>mutex := Some MxFree\<rparr>"

definition dr_mutex_destroy :: "client \<Rightarrow> client" where
  "dr_mutex_destroy c = c\<lparr>mutex := None\<rparr>"

definition drutil_exit :: "client \<Rightarrow> client" where
  "drutil_exit c = c\<lparr>drutil_ready := False\<rparr>"

definition drmgr_exit :: "client \<Rightarrow> client" where
  "drmgr_exit c = c\<lparr>drmgr_ready := False, bb_registered := False\<rparr>"

definition dr_log :: "string \<Rightarrow> client \<Rightarrow> client" where
  "dr_log msg c = c\<lparr>dr_logged := dr_logged c @ [msg]\<rparr>"

lemmas dr_lifecycle_defs [simp] =
  dr_set_client_name_def drmgr_init_def drutil_init_def dr_register_exit_event_def
  drmgr_register_bb_instrumentation_event_def dr_mutex_create_def dr_mutex_destroy_def
  drutil_exit_def drmgr_exit_def dr_log_def

text \<open>
  The path of the log (lines 32--33): \<open>dr_snprintf\<close> prints the name into the stack
  array \<open>logfilename[MAXIMUM_PATH]\<close> (512 characters in DynamoRIO's headers for
  Linux), and \<open>dr_open_file\<close> reads it back as a C string.
\<close>

definition maximum_path :: nat where
  "maximum_path = 512"

definition log_path :: "char list \<Rightarrow> dr_error + string" where
  "log_path logfilename =
     ebind (dr_snprintf logfilename 0 maximum_path ''bbv_output.jsonl'') (\<lambda>(buf, _).
       case strlen_opt buf of None \<Rightarrow> Inl ReadOutOfBounds | Some n \<Rightarrow> Inr (take n buf))"

definition init_message :: string where
  "init_message = ''BBV Client initialized'' @ [CHR 0x0A]"

datatype dr_emit_flags = DR_EMIT_DEFAULT

subsection \<open>Entry points\<close>

text \<open>
  \<open>dr_client_main\<close>: the client is named, the extensions are initialised and both
  events registered before the mutex is created and the log opened; a log that
  cannot be opened fails \<open>DR_ASSERT\<close>, which terminates the process. The stack array
  \<open>logfilename\<close> starts with unknown contents.
\<close>

definition dr_client_main :: "client \<Rightarrow> dr_error + client" where
  "dr_client_main c =
     (let c1 = dr_set_client_name ''DynamoRIO Basic Block Vector Client'' ''https://dynamorio.org'' c;
          c2 = drutil_init (drmgr_init c1);
          c3 = drmgr_register_bb_instrumentation_event (dr_register_exit_event c2);
          c4 = dr_mutex_create c3
      in ebind (log_path (replicate maximum_path undefined)) (\<lambda>path.
           let (w', f) = dr_open_file_overwrite (world c4) path;
               c5 = c4\<lparr>world := w', log_file := f\<rparr>
           in if f = INVALID_FILE then Inl AssertFailed else Inr (dr_log init_message c5)))"

text \<open>
  \<open>bb_instrumentation\<close>: the callback DynamoRIO runs for every basic block it builds
  (also when it rebuilds one for a trace, \<open>for_trace\<close>, or to translate a fault
  address, \<open>translating\<close>: the client reads neither flag). \<open>junk\<close> is the stack
  contents under \<open>json_buf\<close>. The return value of \<open>dr_write_file\<close> is ignored.
\<close>

definition bb_instrumentation ::
  "client \<Rightarrow> instrlist \<Rightarrow> bool \<Rightarrow> bool \<Rightarrow> (nat \<Rightarrow> char) \<Rightarrow> dr_error + client \<times> dr_emit_flags" where
  "bb_instrumentation c bb for_trace translating junk =
     ebind (dr_mutex_lock (mutex c)) (\<lambda>m.
       let bid = bb_id c;
           c1 = c\<lparr>mutex := m, bb_id := bid + 1\<rparr>
       in ebind (bb_json bid bb junk) (\<lambda>line.
            let (w', _) = dr_write_file (world c1) (log_file c1) line
            in ebind (dr_mutex_unlock (mutex c1)) (\<lambda>m'.
                 Inr (c1\<lparr>world := w', mutex := m'\<rparr>, DR_EMIT_DEFAULT))))"

text \<open>\<open>event_exit\<close>: close the log if it was opened, destroy the mutex, shut the extensions down.\<close>

definition event_exit :: "client \<Rightarrow> client" where
  "event_exit c =
     (let c1 = (if log_file c \<noteq> INVALID_FILE then c\<lparr>world := dr_close_file (world c) (log_file c)\<rparr> else c)
      in drmgr_exit (drutil_exit (dr_mutex_destroy c1)))"

subsection \<open>Runs\<close>

text \<open>
  A basic-block event as DynamoRIO delivers it: the block, the two flags, and the
  stack contents the callback finds.
\<close>

record bb_event =
  ev_bb :: instrlist
  ev_for_trace :: bool
  ev_translating :: bool
  ev_junk :: "nat \<Rightarrow> char"

fun run_events :: "client \<Rightarrow> bb_event list \<Rightarrow> dr_error + client" where
  "run_events c [] = Inr c"
| "run_events c (e # es) =
     ebind (bb_instrumentation c (ev_bb e) (ev_for_trace e) (ev_translating e) (ev_junk e))
       (\<lambda>(c', _). run_events c' es)"

text \<open>The log a run is meant to produce: one record per event, numbered from \<open>i\<close>.\<close>

fun expected_log :: "32 word \<Rightarrow> instrlist list \<Rightarrow> string" where
  "expected_log i [] = []"
| "expected_log i (b # bs) = json_record i b @ expected_log (i + 1) bs"

subsection \<open>Initialisation\<close>

text \<open>
  \<open>recording c\<close>: the state between initialisation and exit in which no callback
  runs: the mutex exists and is free, \<open>log_file\<close> is an open descriptor of the log,
  and the device accepts writes and never fills up.
\<close>

definition recording :: "client \<Rightarrow> bool" where
  "recording c \<longleftrightarrow>
     mutex c = Some MxFree \<and> \<not> io_error (world c) \<and> room (world c) = None \<and>
     (\<exists>n. log_file c = FD n \<and> fds (world c) n = Some log_name)"

text \<open>Whatever the stack held, the path opened is the log's name.\<close>

lemma log_path_any: "length logfilename = maximum_path \<Longrightarrow> log_path logfilename = Inr log_name"
  by (simp add: log_path_def dr_snprintf_def snprintf_out_def snprintf_ret_def buf_write_def
                maximum_path_def log_name_def)

lemma log_path_stack [simp]: "log_path (replicate maximum_path undefined) = Inr log_name"
  by (simp add: log_path_any)

lemma dr_client_main_ok:
  assumes "creatable (world c) log_name"
  shows "dr_client_main c =
           Inr (c\<lparr>client_name := Some (''DynamoRIO Basic Block Vector Client'', ''https://dynamorio.org''),
                  drmgr_ready := True, drutil_ready := True, exit_registered := True, bb_registered := True,
                  mutex := Some MxFree,
                  world := (world c)\<lparr>files := (files (world c))(log_name \<mapsto> []),
                                     fds := (fds (world c))(next_fd (world c) \<mapsto> log_name),
                                     next_fd := Suc (next_fd (world c)),
                                     room := map_option (\<lambda>r. r + length (file_contents (world c) log_name))
                                               (room (world c))\<rparr>,
                  log_file := FD (next_fd (world c)),
                  dr_logged := dr_logged c @ [init_message]\<rparr>)"
  using assms by (simp add: dr_client_main_def dr_open_file_overwrite_ok)

lemma dr_client_main_fail:
  "\<not> creatable (world c) log_name \<Longrightarrow> dr_client_main c = Inl AssertFailed"
  by (simp add: dr_client_main_def dr_open_file_overwrite_fail)

lemma dr_client_main_recording:
  "dr_client_main c = Inr c' \<Longrightarrow> \<not> io_error (world c) \<Longrightarrow> room (world c) = None \<Longrightarrow> recording c'"
  by (cases "creatable (world c) log_name")
     (auto simp: dr_client_main_ok dr_client_main_fail recording_def)

lemma dr_client_main_log_empty:
  "dr_client_main c = Inr c' \<Longrightarrow> file_contents (world c') log_name = []"
  by (cases "creatable (world c) log_name")
     (auto simp: dr_client_main_ok dr_client_main_fail file_contents_def)

lemma dr_client_main_bb_id:
  "dr_client_main c = Inr c' \<Longrightarrow> bb_id c' = bb_id c"
  by (cases "creatable (world c) log_name") (auto simp: dr_client_main_ok dr_client_main_fail)

subsection \<open>One callback\<close>

text \<open>
  While recording, a callback whose serialization succeeds appends the serialized
  line to the log, advances \<open>bb_id\<close> by one and leaves the client recording.
\<close>

lemma bb_instrumentation_appends:
  assumes rec: "recording c" and ser: "bb_json (bb_id c) bb junk = Inr line"
  shows "\<exists>c'. bb_instrumentation c bb ft tr junk = Inr (c', DR_EMIT_DEFAULT) \<and> recording c' \<and>
              bb_id c' = bb_id c + 1 \<and>
              file_contents (world c') log_name = file_contents (world c) log_name @ line"
proof -
  obtain n where lf: "log_file c = FD n" and fd: "fds (world c) n = Some log_name"
    and mx: "mutex c = Some MxFree" and io: "\<not> io_error (world c)" and rm: "room (world c) = None"
    using rec by (auto simp: recording_def)
  let ?w = "(world c)\<lparr>files := (files (world c))(log_name \<mapsto> file_contents (world c) log_name @ line)\<rparr>"
  have "bb_instrumentation c bb ft tr junk =
          Inr (c\<lparr>mutex := Some MxHeld, bb_id := bb_id c + 1\<rparr>\<lparr>world := ?w, mutex := Some MxFree\<rparr>,
               DR_EMIT_DEFAULT)"
    using lf fd mx io rm ser
    by (simp add: bb_instrumentation_def dr_mutex_lock_def dr_mutex_unlock_def dr_write_file_appends)
  moreover have "recording (c\<lparr>mutex := Some MxHeld, bb_id := bb_id c + 1\<rparr>\<lparr>world := ?w, mutex := Some MxFree\<rparr>)"
    using lf fd io rm by (auto simp: recording_def)
  ultimately show ?thesis
    by (simp add: file_contents_def)
qed

text \<open>
  A callback whose serialization fails (the \<open>strlen\<close> overrun) stops the process
  inside the critical section.
\<close>

lemma bb_instrumentation_serialize_fails:
  "mutex c = Some MxFree \<Longrightarrow> bb_json (bb_id c) bb junk = Inl e \<Longrightarrow>
   bb_instrumentation c bb ft tr junk = Inl e"
  by (simp add: bb_instrumentation_def dr_mutex_lock_def)

subsection \<open>Runs\<close>

lemma run_events_append:
  "run_events c (xs @ ys) = ebind (run_events c xs) (\<lambda>c'. run_events c' ys)"
  by (induction xs arbitrary: c) (simp_all add: ebind_assoc split_def)

text \<open>The fit condition of a run, seen from its second event on.\<close>

lemma fit_shift:
  assumes "\<forall>k < length (e # es). P (i + word_of_nat k) ((e # es) ! k)"
  shows "\<forall>k < length es. P (i + 1 + word_of_nat k) (es ! k)"
proof (intro allI impI)
  fix k
  assume "k < length es"
  then have "Suc k < length (e # es)"
    by simp
  with assms have "P (i + word_of_nat (Suc k)) ((e # es) ! Suc k)"
    by blast
  moreover have "i + word_of_nat (Suc k) = i + 1 + word_of_nat k"
    by (simp add: algebra_simps)
  ultimately show "P (i + 1 + word_of_nat k) (es ! k)"
    by (simp only: nth_Cons_Suc)
qed

lemma run_events_appends:
  assumes "recording c"
    and "\<forall>k < length es. length (json_record (bb_id c + word_of_nat k) (ev_bb (es ! k))) < json_bufsz"
  shows "\<exists>c'. run_events c es = Inr c' \<and> recording c' \<and>
              bb_id c' = bb_id c + word_of_nat (length es) \<and>
              file_contents (world c') log_name =
                file_contents (world c) log_name @ expected_log (bb_id c) (map ev_bb es)"
  using assms
proof (induction es arbitrary: c)
  case Nil
  then show ?case by simp
next
  case (Cons e es)
  have "length (json_record (bb_id c) (ev_bb e)) < json_bufsz"
    using Cons.prems(2) by (drule_tac x = 0 in spec) simp
  then have ser: "bb_json (bb_id c) (ev_bb e) (ev_junk e) = Inr (json_record (bb_id c) (ev_bb e))"
    by (rule bb_json_fits)
  obtain c1 where step: "bb_instrumentation c (ev_bb e) (ev_for_trace e) (ev_translating e) (ev_junk e) =
                           Inr (c1, DR_EMIT_DEFAULT)"
    and rec1: "recording c1" and id1: "bb_id c1 = bb_id c + 1"
    and log1: "file_contents (world c1) log_name =
                 file_contents (world c) log_name @ json_record (bb_id c) (ev_bb e)"
    using bb_instrumentation_appends [OF Cons.prems(1) ser] by blast
  have "\<forall>k < length es. length (json_record (bb_id c1 + word_of_nat k) (ev_bb (es ! k))) < json_bufsz"
    using fit_shift [where P = "\<lambda>b e. length (json_record b (ev_bb e)) < json_bufsz", OF Cons.prems(2)] id1
    by simp
  then obtain c' where run: "run_events c1 es = Inr c'" and rec': "recording c'"
    and id': "bb_id c' = bb_id c1 + word_of_nat (length es)"
    and log': "file_contents (world c') log_name =
                 file_contents (world c1) log_name @ expected_log (bb_id c1) (map ev_bb es)"
    using Cons.IH [OF rec1] by blast
  show ?case
    using step run rec' id' log' id1 log1 by (simp add: add.assoc)
qed

text \<open>The state \<open>dr_client_main\<close> leaves on a device that accepts every write.\<close>

lemma dr_client_main_start:
  assumes init: "dr_client_main (client_load w) = Inr c" and io: "\<not> io_error w" and rm: "room w = None"
  shows "recording c \<and> bb_id c = 0 \<and> file_contents (world c) log_name = []"
  using dr_client_main_recording [OF init] dr_client_main_bb_id [OF init] dr_client_main_log_empty [OF init] io rm
  by (simp add: client_load_def)

lemma expected_log_append:
  "expected_log i (xs @ ys) = expected_log i xs @ expected_log (i + word_of_nat (length xs)) ys"
  by (induction xs arbitrary: i) (simp_all add: algebra_simps)

text \<open>The \<open>k\<close>-th record of a log starts with the header of identifier \<open>k\<close>.\<close>

lemma expected_log_nth:
  assumes "k < length bs"
  shows "\<exists>rest. expected_log 0 bs = expected_log 0 (take k bs) @ bb_header (word_of_nat k) @ rest"
proof -
  have "bs = take k bs @ bs ! k # drop (Suc k) bs"
    using assms by (simp add: id_take_nth_drop)
  then have "expected_log 0 bs = expected_log 0 (take k bs @ bs ! k # drop (Suc k) bs)"
    by simp
  also have "\<dots> = expected_log 0 (take k bs) @ json_record (word_of_nat k) (bs ! k) @
                   expected_log (word_of_nat k + 1) (drop (Suc k) bs)"
    using assms by (simp add: expected_log_append min_def)
  finally show ?thesis
    by (simp add: json_record_def)
qed

text \<open>A one-instruction block fits in \<open>json_buf\<close> whatever its identifier.\<close>

lemma ret_record_fits:
  "length (json_record bid [\<lparr>instr_is_app = True, instr_app_pc = 0x2000, instr_text = ''ret''\<rparr>]) < json_bufsz"
proof -
  let ?i = "\<lparr>instr_is_app = True, instr_app_pc = 0x2000, instr_text = ''ret''\<rparr>"
  have "length (json_record bid [?i]) \<le> 43 + 299 * length (bb_entries [?i])"
    by (rule length_json_record_le)
  moreover have "length (bb_entries [?i]) = 1"
    by (simp add: bb_entries_def app_instrs_def max_instrs_def)
  ultimately show ?thesis
    by (simp add: json_bufsz_def)
qed

subsection \<open>What the client writes\<close>

text \<open>
  C1. A run of the client: after \<open>dr_client_main\<close> has opened the log, every
  callback of a sequence of basic-block events whose records fit in \<open>json_buf\<close>
  appends its record, so the log holds exactly one line per event, in event order,
  numbered \<open>0, 1, \<dots>, N-1\<close>, and \<open>bb_id\<close> ends at \<open>N\<close>. This holds whatever the
  \<open>for_trace\<close> and \<open>translating\<close> flags of the events are.
\<close>

theorem client_run_log:
  assumes init: "dr_client_main (client_load w) = Inr c" and io: "\<not> io_error w" and rm: "room w = None"
    and fit: "\<forall>k < length es. length (json_record (word_of_nat k) (ev_bb (es ! k))) < json_bufsz"
  shows "\<exists>c'. run_events c es = Inr c' \<and>
              file_contents (world c') log_name = expected_log 0 (map ev_bb es) \<and>
              bb_id c' = word_of_nat (length es)"
proof -
  have rec: "recording c" and id0: "bb_id c = 0" and empty: "file_contents (world c) log_name = []"
    using dr_client_main_start [OF init io rm] by simp_all
  then show ?thesis
    using run_events_appends [OF rec, of es] fit by auto
qed

theorem client_run_log_witness:
  "(let w = \<lparr>files = Map.empty, creatable = (\<lambda>_. True), fds = Map.empty, next_fd = 3, io_error = False, room = None\<rparr>;
        i = \<lparr>instr_is_app = True, instr_app_pc = 0x2000, instr_text = ''ret''\<rparr>;
        es = [\<lparr>ev_bb = [i], ev_for_trace = False, ev_translating = False, ev_junk = (\<lambda>_. CHR ''?'')\<rparr>,
              \<lparr>ev_bb = [i], ev_for_trace = False, ev_translating = True, ev_junk = (\<lambda>_. CHR ''?'')\<rparr>]
    in \<exists>c. dr_client_main (client_load w) = Inr c \<and> \<not> io_error w \<and> room w = None \<and>
           (\<forall>k < length es. length (json_record (word_of_nat k) (ev_bb (es ! k))) < json_bufsz) \<and>
           (\<exists>c'. run_events c es = Inr c' \<and>
                 file_contents (world c') log_name = expected_log 0 (map ev_bb es) \<and>
                 bb_id c' = word_of_nat (length es)))"
proof -
  let ?w = "\<lparr>files = Map.empty, creatable = (\<lambda>_. True), fds = Map.empty, next_fd = 3, io_error = False, room = None\<rparr>"
  let ?i = "\<lparr>instr_is_app = True, instr_app_pc = 0x2000, instr_text = ''ret''\<rparr>"
  let ?es = "[\<lparr>ev_bb = [?i], ev_for_trace = False, ev_translating = False, ev_junk = (\<lambda>_. CHR ''?'')\<rparr>,
              \<lparr>ev_bb = [?i], ev_for_trace = False, ev_translating = True, ev_junk = (\<lambda>_. CHR ''?'')\<rparr>]"
  obtain c where init: "dr_client_main (client_load ?w) = Inr c"
    using dr_client_main_ok [of "client_load ?w"] by (simp add: client_load_def)
  have "\<forall>k < length ?es. length (json_record (word_of_nat k) (ev_bb (?es ! k))) < json_bufsz"
  proof (intro allI impI)
    fix k
    have "length (json_record (word_of_nat k) [?i]) \<le> 43 + 299 * length (bb_entries [?i])"
      by (rule length_json_record_le)
    moreover have "length (bb_entries [?i]) = 1"
      by (simp add: bb_entries_def app_instrs_def max_instrs_def)
    moreover assume "k < length ?es"
    then have "ev_bb (?es ! k) = [?i]"
      by (cases k) (simp_all add: less_Suc_eq)
    ultimately show "length (json_record (word_of_nat k) (ev_bb (?es ! k))) < json_bufsz"
      by (simp add: json_bufsz_def)
  qed
  then show ?thesis
    using client_run_log [OF init, of ?es] init by (simp add: Let_def)
qed

text \<open>
  C24. Initialisation truncates: when the log can be created, \<open>dr_client_main\<close>
  succeeds with an empty log, whatever a previous run left in the file, a free
  mutex, \<open>bb_id = 0\<close> and the block event registered.
\<close>

theorem dr_client_main_truncates_log:
  assumes "creatable w log_name"
  shows "\<exists>c. dr_client_main (client_load w) = Inr c \<and> files (world c) log_name = Some [] \<and>
             mutex c = Some MxFree \<and> bb_id c = 0 \<and> bb_registered c"
  using dr_client_main_ok [of "client_load w"] assms by (simp add: client_load_def)

theorem dr_client_main_truncates_log_witness:
  "creatable \<lparr>files = [log_name \<mapsto> ''stale''], creatable = (\<lambda>_. True), fds = Map.empty,
              next_fd = 3, io_error = False, room = None\<rparr> log_name \<and>
   (\<exists>c. dr_client_main (client_load \<lparr>files = [log_name \<mapsto> ''stale''], creatable = (\<lambda>_. True),
                                     fds = Map.empty, next_fd = 3, io_error = False, room = None\<rparr>) = Inr c \<and>
        files (world c) log_name = Some [] \<and> mutex c = Some MxFree \<and> bb_id c = 0 \<and> bb_registered c)"
  using dr_client_main_truncates_log
    [of "\<lparr>files = [log_name \<mapsto> ''stale''], creatable = (\<lambda>_. True), fds = Map.empty,
          next_fd = 3, io_error = False, room = None\<rparr>"]
  by simp

text \<open>
  C25. A failed write is ignored: when the device fails \<open>dr_write_file\<close>, the
  callback still returns \<open>DR_EMIT_DEFAULT\<close>, the log is unchanged and \<open>bb_id\<close> has
  advanced, so the block's record and its identifier are lost without a trace.
\<close>

theorem bb_instrumentation_write_failure_ignored:
  assumes mx: "mutex c = Some MxFree" and io: "io_error (world c)"
    and fit: "length (json_record (bb_id c) bb) < json_bufsz"
  shows "\<exists>c'. bb_instrumentation c bb ft tr junk = Inr (c', DR_EMIT_DEFAULT) \<and>
              world c' = world c \<and> bb_id c' = bb_id c + 1 \<and> mutex c' = Some MxFree"
proof -
  have "bb_json (bb_id c) bb junk = Inr (json_record (bb_id c) bb)"
    using fit by (rule bb_json_fits)
  then show ?thesis
    using mx io by (simp add: bb_instrumentation_def dr_mutex_lock_def dr_mutex_unlock_def dr_write_file_fails)
qed

theorem bb_instrumentation_write_failure_ignored_witness:
  "let c = (client_load \<lparr>files = Map.empty, creatable = (\<lambda>_. True), fds = Map.empty, next_fd = 3,
                         io_error = True, room = None\<rparr>)\<lparr>mutex := Some MxFree\<rparr>;
       bb = [\<lparr>instr_is_app = True, instr_app_pc = 0x2000, instr_text = ''ret''\<rparr>]
   in mutex c = Some MxFree \<and> io_error (world c) \<and> length (json_record (bb_id c) bb) < json_bufsz \<and>
      (\<exists>c'. bb_instrumentation c bb False False (\<lambda>_. CHR ''?'') = Inr (c', DR_EMIT_DEFAULT) \<and>
            world c' = world c \<and> bb_id c' = bb_id c + 1 \<and> mutex c' = Some MxFree)"
proof -
  let ?c = "(client_load \<lparr>files = Map.empty, creatable = (\<lambda>_. True), fds = Map.empty, next_fd = 3,
                         io_error = True, room = None\<rparr>)\<lparr>mutex := Some MxFree\<rparr>"
  let ?bb = "[\<lparr>instr_is_app = True, instr_app_pc = 0x2000, instr_text = ''ret''\<rparr>]"
  have "length (json_record (bb_id ?c) ?bb) \<le> 43 + 299 * length (bb_entries ?bb)"
    by (rule length_json_record_le)
  moreover have "length (bb_entries ?bb) = 1"
    by (simp add: bb_entries_def app_instrs_def max_instrs_def)
  ultimately have fit: "length (json_record (bb_id ?c) ?bb) < json_bufsz"
    by (simp add: json_bufsz_def)
  have "mutex ?c = Some MxFree" and "io_error (world ?c)"
    by (simp_all add: client_load_def)
  with fit show ?thesis
    using bb_instrumentation_write_failure_ignored [of ?c ?bb False False "\<lambda>_. CHR ''?''"]
    by (simp add: Let_def)
qed

text \<open>
  C22. The identifier printed in a record is the number of callbacks before it: in
  the log of a run, the record that follows \<open>k\<close> records, for \<open>k < 2^31\<close>, begins
  with \<open>{"bb_id": k\<close> in plain decimal.
\<close>

theorem run_record_ids_count:
  assumes init: "dr_client_main (client_load w) = Inr c" and io: "\<not> io_error w" and rm: "room w = None"
    and fit: "\<forall>k < length es. length (json_record (word_of_nat k) (ev_bb (es ! k))) < json_bufsz"
    and k: "k < length es" and small: "k < 2 ^ 31"
  shows \<open>\<exists>c' rest. run_events c es = Inr c' \<and>
           file_contents (world c') log_name =
             expected_log 0 (take k (map ev_bb es)) @ ''{"bb_id": '' @ dec_nat k @ '', "instructions": ['' @ rest\<close>
proof -
  have rec: "recording c" and id0: "bb_id c = 0" and empty: "file_contents (world c) log_name = []"
    using dr_client_main_start [OF init io rm] by simp_all
  obtain c' where run: "run_events c es = Inr c'"
    and lg: "file_contents (world c') log_name = expected_log 0 (map ev_bb es)"
    using run_events_appends [OF rec, of es] fit id0 empty by auto
  obtain rest where "expected_log 0 (map ev_bb es) =
                       expected_log 0 (take k (map ev_bb es)) @ bb_header (word_of_nat k) @ rest"
    using expected_log_nth [of k "map ev_bb es"] k by auto
  moreover have \<open>bb_header (word_of_nat k) = ''{"bb_id": '' @ dec_nat k @ '', "instructions": [''\<close>
    using sint_word_of_nat_small [OF small] by (simp add: bb_header_def fmt_int_def)
  ultimately show ?thesis
    using run lg by auto
qed

theorem run_record_ids_count_witness:
  \<open>(let w = \<lparr>files = Map.empty, creatable = (\<lambda>_. True), fds = Map.empty, next_fd = 3, io_error = False, room = None\<rparr>;
        e = \<lparr>ev_bb = [\<lparr>instr_is_app = True, instr_app_pc = 0x2000, instr_text = ''ret''\<rparr>], ev_for_trace = False,
             ev_translating = False, ev_junk = (\<lambda>_. CHR ''?'')\<rparr>;
        es = [e, e]
    in \<exists>c. dr_client_main (client_load w) = Inr c \<and> \<not> io_error w \<and> room w = None \<and>
           (\<forall>k < length es. length (json_record (word_of_nat k) (ev_bb (es ! k))) < json_bufsz) \<and>
           1 < length es \<and> (1::nat) < 2 ^ 31 \<and>
           (\<exists>c' rest. run_events c es = Inr c' \<and>
              file_contents (world c') log_name =
                expected_log 0 (take 1 (map ev_bb es)) @ ''{"bb_id": '' @ dec_nat 1 @ '', "instructions": ['' @ rest))\<close>
proof -
  let ?w = "\<lparr>files = Map.empty, creatable = (\<lambda>_. True), fds = Map.empty, next_fd = 3, io_error = False, room = None\<rparr>"
  let ?e = "\<lparr>ev_bb = [\<lparr>instr_is_app = True, instr_app_pc = 0x2000, instr_text = ''ret''\<rparr>], ev_for_trace = False,
             ev_translating = False, ev_junk = (\<lambda>_. CHR ''?'')\<rparr>"
  obtain c where init: "dr_client_main (client_load ?w) = Inr c"
    using dr_client_main_ok [of "client_load ?w"] by (simp add: client_load_def)
  have fit: "\<forall>k < length [?e, ?e]. length (json_record (word_of_nat k) (ev_bb ([?e, ?e] ! k))) < json_bufsz"
    by (simp add: less_Suc_eq ret_record_fits)
  show ?thesis
    using run_record_ids_count [OF init _ _ fit, of 1] init fit by (simp add: Let_def)
qed

text \<open>
  C26. Exit closes the log: \<open>event_exit\<close> on a recording client closes the log's
  descriptor, keeps the log's contents, destroys the mutex and (through \<open>drmgr_exit\<close>) drops the block
  event; a callback arriving after it fails on the destroyed mutex.
\<close>

theorem event_exit_closes_log:
  assumes rec: "recording c" and lf: "log_file c = FD n"
  shows "fds (world (event_exit c)) n = None \<and>
         file_contents (world (event_exit c)) log_name = file_contents (world c) log_name \<and>
         mutex (event_exit c) = None \<and> \<not> bb_registered (event_exit c) \<and>
         bb_instrumentation (event_exit c) bb ft tr junk = Inl InvalidMutex"
  using lf by (simp add: event_exit_def dr_close_file_def file_contents_def
                         bb_instrumentation_def dr_mutex_lock_def)

theorem event_exit_closes_log_witness:
  "let w = \<lparr>files = [log_name \<mapsto> ''x''], creatable = (\<lambda>_. True), fds = [3 \<mapsto> log_name], next_fd = 4,
            io_error = False, room = None\<rparr>;
       c = (client_load w)\<lparr>mutex := Some MxFree, log_file := FD 3\<rparr>
   in recording c \<and> log_file c = FD 3 \<and>
      fds (world (event_exit c)) 3 = None \<and>
      file_contents (world (event_exit c)) log_name = file_contents (world c) log_name \<and>
      mutex (event_exit c) = None \<and> \<not> bb_registered (event_exit c) \<and>
      bb_instrumentation (event_exit c) [] False False (\<lambda>_. CHR ''?'') = Inl InvalidMutex"
proof -
  let ?w = "\<lparr>files = [log_name \<mapsto> ''x''], creatable = (\<lambda>_. True), fds = [3 \<mapsto> log_name], next_fd = 4,
            io_error = False, room = None\<rparr>"
  let ?c = "(client_load ?w)\<lparr>mutex := Some MxFree, log_file := FD 3\<rparr>"
  have rec: "recording ?c"
    by (simp add: recording_def client_load_def)
  show ?thesis
    using event_exit_closes_log [OF rec, of 3 "[]" False False "\<lambda>_. CHR ''?''"] rec
    by (simp add: Let_def)
qed

text \<open>
  C23. After \<open>2^31\<close> callbacks the C \<open>int\<close> counter has overflowed (undefined behaviour
  in C; two's-complement wrap-around in practice): in the log of a run, the record
  that follows \<open>k\<close> records, for \<open>2^31 \<le> k < 2^32\<close>, carries the negative identifier
  \<open>k - 2^32\<close>, against the spec's non-negative, strictly increasing identifiers.
\<close>

theorem run_record_ids_wrap:
  assumes init: "dr_client_main (client_load w) = Inr c" and io: "\<not> io_error w" and rm: "room w = None"
    and fit: "\<forall>k < length es. length (json_record (word_of_nat k) (ev_bb (es ! k))) < json_bufsz"
    and k: "k < length es" and big: "2 ^ 31 \<le> k" and k32: "k < 2 ^ 32"
  shows \<open>\<exists>c' rest. run_events c es = Inr c' \<and>
           file_contents (world c') log_name =
             expected_log 0 (take k (map ev_bb es)) @
             ''{"bb_id": -'' @ dec_nat (2 ^ 32 - k) @ '', "instructions": ['' @ rest\<close>
proof -
  have rec: "recording c" and id0: "bb_id c = 0" and empty: "file_contents (world c) log_name = []"
    using dr_client_main_start [OF init io rm] by simp_all
  obtain c' where run: "run_events c es = Inr c'"
    and lg: "file_contents (world c') log_name = expected_log 0 (map ev_bb es)"
    using run_events_appends [OF rec, of es] fit id0 empty by auto
  obtain rest where "expected_log 0 (map ev_bb es) =
                       expected_log 0 (take k (map ev_bb es)) @ bb_header (word_of_nat k) @ rest"
    using expected_log_nth [of k "map ev_bb es"] k by auto
  moreover have \<open>bb_header (word_of_nat k) = ''{"bb_id": -'' @ dec_nat (2 ^ 32 - k) @ '', "instructions": [''\<close>
  proof -
    have "sint (word_of_nat k :: 32 word) = int k - 2 ^ 32"
      by (rule sint_word_of_nat_wrap [OF big k32])
    moreover have "nat (- (int k - 2 ^ 32)) = 2 ^ 32 - k"
      using k32 by simp
    ultimately show ?thesis
      using big k32 by (simp add: bb_header_def fmt_int_def)
  qed
  ultimately show ?thesis
    using run lg by auto
qed

theorem run_record_ids_wrap_witness:
  \<open>(let w = \<lparr>files = Map.empty, creatable = (\<lambda>_. True), fds = Map.empty, next_fd = 3, io_error = False, room = None\<rparr>;
        e = \<lparr>ev_bb = [\<lparr>instr_is_app = True, instr_app_pc = 0x2000, instr_text = ''ret''\<rparr>], ev_for_trace = False,
             ev_translating = False, ev_junk = (\<lambda>_. CHR ''?'')\<rparr>;
        es = replicate (2 ^ 31 + 1) e
    in \<exists>c. dr_client_main (client_load w) = Inr c \<and> \<not> io_error w \<and> room w = None \<and>
           (\<forall>k < length es. length (json_record (word_of_nat k) (ev_bb (es ! k))) < json_bufsz) \<and>
           2 ^ 31 < length es \<and> 2 ^ 31 \<le> (2 ^ 31 :: nat) \<and> (2 ^ 31 :: nat) < 2 ^ 32 \<and>
           (\<exists>c' rest. run_events c es = Inr c' \<and>
              file_contents (world c') log_name =
                expected_log 0 (take (2 ^ 31) (map ev_bb es)) @
                ''{"bb_id": -'' @ dec_nat (2 ^ 32 - 2 ^ 31) @ '', "instructions": ['' @ rest))\<close>
proof -
  let ?w = "\<lparr>files = Map.empty, creatable = (\<lambda>_. True), fds = Map.empty, next_fd = 3, io_error = False, room = None\<rparr>"
  let ?e = "\<lparr>ev_bb = [\<lparr>instr_is_app = True, instr_app_pc = 0x2000, instr_text = ''ret''\<rparr>], ev_for_trace = False,
             ev_translating = False, ev_junk = (\<lambda>_. CHR ''?'')\<rparr>"
  let ?es = "replicate (2 ^ 31 + 1) ?e"
  obtain c where init: "dr_client_main (client_load ?w) = Inr c"
    using dr_client_main_ok [of "client_load ?w"] by (simp add: client_load_def)
  have fit: "\<forall>k < length ?es. length (json_record (word_of_nat k) (ev_bb (?es ! k))) < json_bufsz"
    by (simp add: ret_record_fits)
  have k: "2 ^ 31 < length ?es"
    by simp
  have ex: \<open>\<exists>c' rest. run_events c ?es = Inr c' \<and>
              file_contents (world c') log_name =
                expected_log 0 (take (2 ^ 31) (map ev_bb ?es)) @
                ''{"bb_id": -'' @ dec_nat (2 ^ 32 - 2 ^ 31) @ '', "instructions": ['' @ rest\<close>
    by (rule run_record_ids_wrap [OF init _ _ fit k]) simp_all
  show ?thesis
    unfolding Let_def using init fit k ex by simp
qed

subsection \<open>Initialisation and exit\<close>

text \<open>
  C27. Exit undoes initialisation: when the log can be created on a well-formed file
  system, \<open>dr_client_main\<close> names the client, initialises drmgr and drutil,
  registers both events, creates the mutex, opens the log and writes its message
  to DynamoRIO's log; \<open>event_exit\<close> then leaves the mutex, the extensions, the
  block event and the descriptor table as they were at load time, and the log
  file truncated. Only the exit event stays registered.
\<close>

theorem client_lifecycle_roundtrip:
  assumes cr: "creatable w log_name" and wf: "world_wf w"
  shows "\<exists>c. dr_client_main (client_load w) = Inr c \<and>
             client_name c = Some (''DynamoRIO Basic Block Vector Client'', ''https://dynamorio.org'') \<and>
             drmgr_ready c \<and> drutil_ready c \<and> exit_registered c \<and> bb_registered c \<and>
             mutex c = Some MxFree \<and> dr_logged c = [init_message] \<and>
             mutex (event_exit c) = mutex (client_load w) \<and>
             drmgr_ready (event_exit c) = drmgr_ready (client_load w) \<and>
             drutil_ready (event_exit c) = drutil_ready (client_load w) \<and>
             bb_registered (event_exit c) = bb_registered (client_load w) \<and>
             exit_registered (event_exit c) \<and>
             fds (world (event_exit c)) = fds w \<and>
             files (world (event_exit c)) = (files w)(log_name \<mapsto> [])"
proof -
  have free: "fds w (next_fd w) = None"
    using wf by (simp add: world_wf_def)
  then have "((fds w)(next_fd w \<mapsto> log_name))(next_fd w := None) = fds w"
    by auto
  then show ?thesis
    using dr_client_main_ok [of "client_load w"] cr
    by (simp add: client_load_def event_exit_def dr_close_file_def)
qed

theorem client_lifecycle_roundtrip_witness:
  "let w = \<lparr>files = Map.empty, creatable = (\<lambda>_. True), fds = Map.empty, next_fd = 3,
            io_error = False, room = None\<rparr>
   in creatable w log_name \<and> world_wf w \<and>
      (\<exists>c. dr_client_main (client_load w) = Inr c \<and>
           client_name c = Some (''DynamoRIO Basic Block Vector Client'', ''https://dynamorio.org'') \<and>
           drmgr_ready c \<and> drutil_ready c \<and> exit_registered c \<and> bb_registered c \<and>
           mutex c = Some MxFree \<and> dr_logged c = [init_message] \<and>
           mutex (event_exit c) = mutex (client_load w) \<and>
           drmgr_ready (event_exit c) = drmgr_ready (client_load w) \<and>
           drutil_ready (event_exit c) = drutil_ready (client_load w) \<and>
           bb_registered (event_exit c) = bb_registered (client_load w) \<and>
           exit_registered (event_exit c) \<and>
           fds (world (event_exit c)) = fds w \<and>
           files (world (event_exit c)) = (files w)(log_name \<mapsto> []))"
proof -
  let ?w = "\<lparr>files = Map.empty, creatable = (\<lambda>_. True), fds = Map.empty, next_fd = 3,
            io_error = False, room = None\<rparr>"
  have "creatable ?w log_name" and "world_wf ?w"
    by (simp_all add: world_wf_def)
  then show ?thesis
    using client_lifecycle_roundtrip [of ?w] by (simp only: Let_def)
qed

end
