(* ===== verification/Concurrency.thy ===== *)
theory Concurrency
  imports Recorder
begin

text \<open>
  Concurrent callbacks. DynamoRIO may run \<open>bb_instrumentation\<close> on several application
  threads at once. Here each thread executes the callback in the atomic steps that
  touch shared state, in the order of \<open>src/client_bbv/client_bbv.c\<close>: \<open>dr_mutex_lock\<close>
  (line 57), the serialization that reads and increments the static \<open>bb_id\<close>
  (lines 58--74), \<open>dr_write_file\<close> (line 76) and \<open>dr_mutex_unlock\<close> (line 77). Any
  thread may take the next step; only the lock step waits, for a free mutex. The
  log is the file's contents (a device that accepts writes). The invariant says how
  the mutex, the threads' positions, \<open>bb_id\<close> and the log agree; from it follow
  mutual exclusion and that the log is always a sequence of whole records numbered
  \<open>0, 1, 2, \<dots>\<close>. A thread running the callback alone refines the sequential
  \<open>bb_instrumentation\<close>. Progress and termination are in \<open>Liveness\<close>.
\<close>

datatype tpc = Idle | Waiting | Locked | Serialized | Written | Finished

text \<open>\<open>in_cs\<close>: between \<open>dr_mutex_lock\<close> and \<open>dr_mutex_unlock\<close>.\<close>

fun in_cs :: "tpc \<Rightarrow> bool" where
  "in_cs Locked = True"
| "in_cs Serialized = True"
| "in_cs Written = True"
| "in_cs _ = False"

text \<open>A thread's position and the callback's locals: its block, its stack contents, its line.\<close>

record cthread =
  t_pc :: tpc
  t_block :: instrlist
  t_junk :: "nat \<Rightarrow> char"
  t_line :: string

record sys =
  threads :: "nat \<Rightarrow> cthread"
  holder :: "nat option"
  shared_id :: "32 word"
  log :: string
  crashed :: "dr_error option"

definition idle_thread :: cthread where
  "idle_thread = \<lparr>t_pc = Idle, t_block = [], t_junk = (\<lambda>_. nul), t_line = []\<rparr>"

definition init_sys :: sys where
  "init_sys = \<lparr>threads = (\<lambda>_. idle_thread), holder = None, shared_id = 0, log = [], crashed = None\<rparr>"

abbreviation set_thread :: "sys \<Rightarrow> nat \<Rightarrow> cthread \<Rightarrow> sys" where
  "set_thread s i t \<equiv> s\<lparr>threads := (threads s)(i := t)\<rparr>"

text \<open>
  The steps. \<open>call\<close>: DynamoRIO calls the callback on thread \<open>i\<close> with a block;
  \<open>acquire\<close>: \<open>dr_mutex_lock\<close> returns; \<open>format\<close>: \<open>bb_id++\<close> and the stores into the
  thread's own \<open>json_buf\<close>; \<open>format_fail\<close>: the \<open>strlen\<close> overrun stops the
  process; \<open>append_line\<close>: \<open>dr_write_file\<close>; \<open>release\<close>: \<open>dr_mutex_unlock\<close>;
  \<open>finish\<close>: the callback returns \<open>DR_EMIT_DEFAULT\<close>.
\<close>

inductive cstep :: "sys \<Rightarrow> sys \<Rightarrow> bool" where
  call: "crashed s = None \<Longrightarrow> t_pc (threads s i) = Idle \<Longrightarrow>
    cstep s (set_thread s i \<lparr>t_pc = Waiting, t_block = bb, t_junk = junk, t_line = []\<rparr>)"
| acquire: "crashed s = None \<Longrightarrow> t_pc (threads s i) = Waiting \<Longrightarrow> holder s = None \<Longrightarrow>
    cstep s ((set_thread s i ((threads s i)\<lparr>t_pc := Locked\<rparr>))\<lparr>holder := Some i\<rparr>)"
| format: "crashed s = None \<Longrightarrow> t_pc (threads s i) = Locked \<Longrightarrow>
    bb_json (shared_id s) (t_block (threads s i)) (t_junk (threads s i)) = Inr line \<Longrightarrow>
    cstep s ((set_thread s i ((threads s i)\<lparr>t_pc := Serialized, t_line := line\<rparr>))
               \<lparr>shared_id := shared_id s + 1\<rparr>)"
| format_fail: "crashed s = None \<Longrightarrow> t_pc (threads s i) = Locked \<Longrightarrow>
    bb_json (shared_id s) (t_block (threads s i)) (t_junk (threads s i)) = Inl e \<Longrightarrow>
    cstep s (s\<lparr>crashed := Some e\<rparr>)"
| append_line: "crashed s = None \<Longrightarrow> t_pc (threads s i) = Serialized \<Longrightarrow>
    cstep s ((set_thread s i ((threads s i)\<lparr>t_pc := Written\<rparr>))\<lparr>log := log s @ t_line (threads s i)\<rparr>)"
| release: "crashed s = None \<Longrightarrow> t_pc (threads s i) = Written \<Longrightarrow>
    cstep s ((set_thread s i ((threads s i)\<lparr>t_pc := Finished\<rparr>))\<lparr>holder := None\<rparr>)"
| finish: "crashed s = None \<Longrightarrow> t_pc (threads s i) = Finished \<Longrightarrow>
    cstep s (set_thread s i ((threads s i)\<lparr>t_pc := Idle\<rparr>))"

inductive reachable :: "sys \<Rightarrow> bool" where
  start: "reachable init_sys"
| step: "reachable s \<Longrightarrow> cstep s t \<Longrightarrow> reachable t"

text \<open>
  Runs in a restricted environment: \<open>calls_ok P s t\<close> says that a callback started by
  the step \<open>s \<rightarrow> t\<close> is called with a block satisfying \<open>P\<close>; \<open>reachable_with P\<close> are the
  states reached when DynamoRIO only ever builds such blocks.
\<close>

definition calls_ok :: "(instrlist \<Rightarrow> bool) \<Rightarrow> sys \<Rightarrow> sys \<Rightarrow> bool" where
  "calls_ok P s t \<longleftrightarrow>
     (\<forall>i. t_pc (threads s i) = Idle \<longrightarrow> t_pc (threads t i) \<noteq> Idle \<longrightarrow> P (t_block (threads t i)))"

inductive reachable_with :: "(instrlist \<Rightarrow> bool) \<Rightarrow> sys \<Rightarrow> bool" for P where
  start: "reachable_with P init_sys"
| step: "reachable_with P s \<Longrightarrow> cstep s t \<Longrightarrow> calls_ok P s t \<Longrightarrow> reachable_with P t"

text \<open>
  The sequential model \<open>bb_instrumentation\<close> of \<open>Recorder\<close> as an abstraction of the
  concurrent one: a recording client and a reachable concurrent state in which no
  callback is running agree on \<open>bb_id\<close> and on the contents of the log.
\<close>

definition seq_abs :: "client \<Rightarrow> sys \<Rightarrow> bool" where
  "seq_abs c s \<longleftrightarrow>
     recording c \<and> reachable s \<and> crashed s = None \<and> holder s = None \<and>
     shared_id s = bb_id c \<and> log s = file_contents (world c) log_name"

subsection \<open>The invariant\<close>

text \<open>
  The log as the record of the callbacks that have written: entry \<open>k\<close> is the block,
  the stack contents and the line of the \<open>k\<close>-th write, and that line is what the
  serializer produces for identifier \<open>k\<close>.
\<close>

type_synonym entry = "instrlist \<times> (nat \<Rightarrow> char) \<times> string"

definition log_text :: "entry list \<Rightarrow> string" where
  "log_text ents = concat (map (\<lambda>(b, j, l). l) ents)"

definition entries_ok :: "entry list \<Rightarrow> bool" where
  "entries_ok ents \<longleftrightarrow>
     (\<forall>k < length ents. case ents ! k of (b, j, l) \<Rightarrow> bb_json (word_of_nat k) b j = Inr l)"

text \<open>How \<open>bb_id\<close> relates to the number of written records, by the holder's position.\<close>

definition id_agrees :: "sys \<Rightarrow> nat \<Rightarrow> bool" where
  "id_agrees s n =
     (case holder s of
        None \<Rightarrow> shared_id s = word_of_nat n
      | Some i \<Rightarrow>
          (case t_pc (threads s i) of
             Serialized \<Rightarrow> shared_id s = word_of_nat n + 1 \<and>
               bb_json (word_of_nat n) (t_block (threads s i)) (t_junk (threads s i)) =
                 Inr (t_line (threads s i))
           | _ \<Rightarrow> shared_id s = word_of_nat n))"

text \<open>
  The invariant, for runs in which every block satisfies \<open>P\<close>: the holder is the one
  thread in the critical section, every running callback has a block satisfying
  \<open>P\<close>, and the log is the record of the written entries, all of such blocks.
\<close>

definition blocks_ok :: "(instrlist \<Rightarrow> bool) \<Rightarrow> entry list \<Rightarrow> bool" where
  "blocks_ok P ents \<longleftrightarrow> (\<forall>e \<in> set ents. P (fst e))"

definition conc_inv_with :: "(instrlist \<Rightarrow> bool) \<Rightarrow> sys \<Rightarrow> bool" where
  "conc_inv_with P s \<longleftrightarrow>
     (\<forall>i. in_cs (t_pc (threads s i)) \<longleftrightarrow> holder s = Some i) \<and>
     (\<forall>i. t_pc (threads s i) \<noteq> Idle \<longrightarrow> P (t_block (threads s i))) \<and>
     (\<exists>ents. log s = log_text ents \<and> entries_ok ents \<and> id_agrees s (length ents) \<and> blocks_ok P ents)"

abbreviation conc_inv :: "sys \<Rightarrow> bool" where
  "conc_inv \<equiv> conc_inv_with (\<lambda>_. True)"

lemma log_text_snoc [simp]: "log_text (ents @ [(b, j, l)]) = log_text ents @ l"
  by (simp add: log_text_def)

lemma entries_ok_snoc:
  "entries_ok ents \<Longrightarrow> bb_json (word_of_nat (length ents)) b j = Inr l \<Longrightarrow>
   entries_ok (ents @ [(b, j, l)])"
  by (auto simp: entries_ok_def nth_append less_Suc_eq)

lemma conc_inv_init: "conc_inv_with P init_sys"
proof -
  have "log init_sys = log_text [] \<and> entries_ok [] \<and> id_agrees init_sys (length ([] :: entry list)) \<and>
        blocks_ok P []"
    by (simp add: init_sys_def log_text_def entries_ok_def id_agrees_def blocks_ok_def)
  then show ?thesis
    by (auto simp: conc_inv_with_def init_sys_def idle_thread_def)
qed

lemma conc_invI:
  "(\<forall>j. in_cs (t_pc (threads t j)) \<longleftrightarrow> holder t = Some j) \<Longrightarrow> log t = log_text ents \<Longrightarrow>
   entries_ok ents \<Longrightarrow> id_agrees t (length ents) \<Longrightarrow>
   (\<forall>j. t_pc (threads t j) \<noteq> Idle \<longrightarrow> P (t_block (threads t j))) \<Longrightarrow> blocks_ok P ents \<Longrightarrow>
   conc_inv_with P t"
  by (auto simp: conc_inv_with_def)

lemma conc_invE:
  assumes "conc_inv_with P s"
  obtains ents where "\<forall>j. in_cs (t_pc (threads s j)) \<longleftrightarrow> holder s = Some j"
    and "log s = log_text ents" and "entries_ok ents" and "id_agrees s (length ents)"
    and "\<forall>j. t_pc (threads s j) \<noteq> Idle \<longrightarrow> P (t_block (threads s j))" and "blocks_ok P ents"
  using assms by (auto simp: conc_inv_with_def)

text \<open>Running callbacks keep their blocks; a new one has a block allowed by \<open>calls_ok\<close>.\<close>

lemma threads_ok_step:
  assumes st: "cstep s t" and ok: "calls_ok P s t"
    and T: "\<forall>j. t_pc (threads s j) \<noteq> Idle \<longrightarrow> P (t_block (threads s j))"
  shows "\<forall>j. t_pc (threads t j) \<noteq> Idle \<longrightarrow> P (t_block (threads t j))"
  using st
proof cases
  case (call i bb junk)
  then show ?thesis
    using ok T by (auto simp: calls_ok_def)
qed (use T in auto)

text \<open>A step that changes neither the holder, nor the holder's thread, nor \<open>bb_id\<close>.\<close>

lemma id_agrees_frame:
  "id_agrees s n \<Longrightarrow> holder t = holder s \<Longrightarrow> shared_id t = shared_id s \<Longrightarrow>
   (\<forall>h. holder s = Some h \<longrightarrow> threads t h = threads s h) \<Longrightarrow> id_agrees t n"
  by (cases "holder s") (auto simp: id_agrees_def split: tpc.splits)

lemma holder_in_cs:
  "\<forall>j. in_cs (t_pc (threads s j)) \<longleftrightarrow> holder s = Some j \<Longrightarrow> in_cs (t_pc (threads s i)) \<Longrightarrow>
   holder s = Some i"
  by blast

text \<open>Every step keeps the invariant: rule induction on the step, one case per rule.\<close>

lemma conc_inv_step:
  assumes "cstep s t" and "conc_inv_with P s" and "calls_ok P s t"
  shows "conc_inv_with P t"
proof -
  have "\<forall>j. t_pc (threads s j) \<noteq> Idle \<longrightarrow> P (t_block (threads s j))"
    using assms(2) by (simp add: conc_inv_with_def)
  then have T': "\<forall>j. t_pc (threads t j) \<noteq> Idle \<longrightarrow> P (t_block (threads t j))"
    using threads_ok_step [OF assms(1,3)] by blast
  from assms(1,2) T' show ?thesis
proof (induction rule: cstep.induct)
  case (call s i bb junk)
  from call.prems(1) obtain ents where A: "\<forall>j. in_cs (t_pc (threads s j)) \<longleftrightarrow> holder s = Some j"
    and L: "log s = log_text ents" "entries_ok ents" "id_agrees s (length ents)"
    and E: "blocks_ok P ents"
    by (rule conc_invE)
  have nh: "holder s \<noteq> Some i"
    using A call.hyps(2) by force
  show ?case
  proof (rule conc_invI)
    show "\<forall>j. in_cs (t_pc (threads (set_thread s i \<lparr>t_pc = Waiting, t_block = bb, t_junk = junk, t_line = []\<rparr>) j)) \<longleftrightarrow>
              holder (set_thread s i \<lparr>t_pc = Waiting, t_block = bb, t_junk = junk, t_line = []\<rparr>) = Some j"
      using A nh by auto
    show "id_agrees (set_thread s i \<lparr>t_pc = Waiting, t_block = bb, t_junk = junk, t_line = []\<rparr>) (length ents)"
      by (rule id_agrees_frame [OF L(3)]) (use nh in auto)
  qed (use L E call.prems(2) in simp_all)
next
  case (acquire s i)
  from acquire.prems(1) obtain ents where A: "\<forall>j. in_cs (t_pc (threads s j)) \<longleftrightarrow> holder s = Some j"
    and L: "log s = log_text ents" "entries_ok ents" "id_agrees s (length ents)"
    and E: "blocks_ok P ents"
    by (rule conc_invE)
  have "shared_id s = word_of_nat (length ents)"
    using L(3) acquire.hyps(3) by (simp add: id_agrees_def)
  then show ?case
    using A L E acquire.prems(2) acquire.hyps by (intro conc_invI [of _ ents]) (auto simp: id_agrees_def)
next
  case (format s i line)
  from format.prems(1) obtain ents where A: "\<forall>j. in_cs (t_pc (threads s j)) \<longleftrightarrow> holder s = Some j"
    and L: "log s = log_text ents" "entries_ok ents" "id_agrees s (length ents)"
    and E: "blocks_ok P ents"
    by (rule conc_invE)
  have h: "holder s = Some i"
    using A format.hyps(2) by (intro holder_in_cs) simp_all
  have "shared_id s = word_of_nat (length ents)"
    using L(3) h format.hyps(2) by (simp add: id_agrees_def)
  then show ?case
    using A L E h format.prems(2) format.hyps by (intro conc_invI [of _ ents]) (auto simp: id_agrees_def)
next
  case (format_fail s i e)
  from format_fail.prems(1) obtain ents where A: "\<forall>j. in_cs (t_pc (threads s j)) \<longleftrightarrow> holder s = Some j"
    and L: "log s = log_text ents" "entries_ok ents" "id_agrees s (length ents)"
    and E: "blocks_ok P ents"
    by (rule conc_invE)
  have "id_agrees (s\<lparr>crashed := Some e\<rparr>) (length ents)"
    by (rule id_agrees_frame [OF L(3)]) auto
  then show ?case
    using A L E format_fail.prems(2) by (intro conc_invI [of _ ents]) auto
next
  case (append_line s i)
  from append_line.prems(1) obtain ents where A: "\<forall>j. in_cs (t_pc (threads s j)) \<longleftrightarrow> holder s = Some j"
    and L: "log s = log_text ents" "entries_ok ents" "id_agrees s (length ents)"
    and E: "blocks_ok P ents"
    by (rule conc_invE)
  have h: "holder s = Some i"
    using A append_line.hyps(2) by (intro holder_in_cs) simp_all
  let ?e = "(t_block (threads s i), t_junk (threads s i), t_line (threads s i))"
  have sid: "shared_id s = word_of_nat (length ents) + 1"
    and ser: "bb_json (word_of_nat (length ents)) (t_block (threads s i)) (t_junk (threads s i)) =
                Inr (t_line (threads s i))"
    using L(3) h append_line.hyps(2) by (simp_all add: id_agrees_def)
  have ok: "entries_ok (ents @ [?e])"
    using entries_ok_snoc [OF L(2) ser] .
  have "shared_id s = word_of_nat (length (ents @ [?e]))"
    using sid by simp
  moreover have "blocks_ok P (ents @ [?e])"
  proof -
    have "P (t_block (threads s i))"
      using append_line.prems(2) [rule_format, of i] by simp
    then show ?thesis
      using E by (simp add: blocks_ok_def)
  qed
  ultimately show ?case
    using A L(1) ok h append_line.prems(2) append_line.hyps
    by (intro conc_invI [of _ "ents @ [?e]"]) (auto simp: id_agrees_def)
next
  case (release s i)
  from release.prems(1) obtain ents where A: "\<forall>j. in_cs (t_pc (threads s j)) \<longleftrightarrow> holder s = Some j"
    and L: "log s = log_text ents" "entries_ok ents" "id_agrees s (length ents)"
    and E: "blocks_ok P ents"
    by (rule conc_invE)
  have h: "holder s = Some i"
    using A release.hyps(2) by (intro holder_in_cs) simp_all
  have "shared_id s = word_of_nat (length ents)"
    using L(3) h release.hyps(2) by (simp add: id_agrees_def)
  then show ?case
    using A L E h release.prems(2) release.hyps by (intro conc_invI [of _ ents]) (auto simp: id_agrees_def)
next
  case (finish s i)
  from finish.prems(1) obtain ents where A: "\<forall>j. in_cs (t_pc (threads s j)) \<longleftrightarrow> holder s = Some j"
    and L: "log s = log_text ents" "entries_ok ents" "id_agrees s (length ents)"
    and E: "blocks_ok P ents"
    by (rule conc_invE)
  have nh: "holder s \<noteq> Some i"
    using A finish.hyps(2) by force
  show ?case
  proof (rule conc_invI)
    show "\<forall>j. in_cs (t_pc (threads (set_thread s i ((threads s i)\<lparr>t_pc := Idle\<rparr>)) j)) \<longleftrightarrow>
              holder (set_thread s i ((threads s i)\<lparr>t_pc := Idle\<rparr>)) = Some j"
      using A nh by auto
    show "id_agrees (set_thread s i ((threads s i)\<lparr>t_pc := Idle\<rparr>)) (length ents)"
      by (rule id_agrees_frame [OF L(3)]) (use nh in auto)
  qed (use L E finish.prems(2) in simp_all)
qed
qed

lemma reachable_conc_inv: "reachable s \<Longrightarrow> conc_inv s"
proof (induction rule: reachable.induct)
  case start
  show ?case by (rule conc_inv_init)
next
  case (step s t)
  have "calls_ok (\<lambda>_. True) s t"
    by (simp add: calls_ok_def)
  with step show ?case
    by (blast intro: conc_inv_step)
qed

lemma reachable_with_conc_inv: "reachable_with P s \<Longrightarrow> conc_inv_with P s"
proof (induction rule: reachable_with.induct)
  case start
  show ?case by (rule conc_inv_init)
next
  case (step s t)
  then show ?case
    by (blast intro: conc_inv_step)
qed

subsection \<open>A callback that runs alone\<close>

text \<open>
  From a quiescent state (no crash, mutex free), one thread running its callback
  without interference passes through the waiting and locked positions and returns
  with the log extended by its line and \<open>bb_id\<close> advanced by one: the effect of the
  sequential \<open>bb_instrumentation\<close> on the log and the counter.
\<close>

lemma reachable_with_True: "reachable_with (\<lambda>_. True) s \<longleftrightarrow> reachable s"
proof
  show "reachable_with (\<lambda>_. True) s \<Longrightarrow> reachable s"
    by (induction rule: reachable_with.induct) (auto intro: reachable.intros)
  show "reachable s \<Longrightarrow> reachable_with (\<lambda>_. True) s"
    by (induction rule: reachable.induct) (auto intro: reachable_with.intros simp: calls_ok_def)
qed

lemma calls_ok_busy:
  "t_pc (threads s i) \<noteq> Idle \<Longrightarrow> (\<forall>j. j \<noteq> i \<longrightarrow> threads t j = threads s j) \<Longrightarrow> calls_ok P s t"
  by (auto simp: calls_ok_def)

lemma solo_callback_with:
  assumes r: "reachable_with P s" and nc: "crashed s = None" and nh: "holder s = None"
    and idle: "t_pc (threads s i) = Idle" and pb: "P bb"
    and ser: "bb_json (shared_id s) bb junk = Inr line"
  shows "\<exists>s1 s2 t. reachable_with P s1 \<and> t_pc (threads s1 i) = Waiting \<and> crashed s1 = None \<and>
                 reachable_with P s2 \<and> t_pc (threads s2 i) = Locked \<and>
                 reachable_with P t \<and> crashed t = None \<and> holder t = None \<and> t_pc (threads t i) = Idle \<and>
                 log t = log s @ line \<and> shared_id t = shared_id s + 1"
proof -
  let ?s1 = "set_thread s i \<lparr>t_pc = Waiting, t_block = bb, t_junk = junk, t_line = []\<rparr>"
  have "calls_ok P s ?s1"
    using pb by (simp add: calls_ok_def)
  then have r1: "reachable_with P ?s1"
    using r cstep.call [OF nc idle] by (blast intro: reachable_with.step)
  let ?s2 = "(set_thread ?s1 i ((threads ?s1 i)\<lparr>t_pc := Locked\<rparr>))\<lparr>holder := Some i\<rparr>"
  have r2: "reachable_with P ?s2"
    using r1 cstep.acquire [of ?s1 i] nc nh calls_ok_busy [of ?s1 i ?s2 P]
    by (auto intro: reachable_with.step)
  let ?s3 = "(set_thread ?s2 i ((threads ?s2 i)\<lparr>t_pc := Serialized, t_line := line\<rparr>))
               \<lparr>shared_id := shared_id ?s2 + 1\<rparr>"
  have r3: "reachable_with P ?s3"
    using r2 cstep.format [of ?s2 i line] nc ser calls_ok_busy [of ?s2 i ?s3 P]
    by (auto intro: reachable_with.step)
  let ?s4 = "(set_thread ?s3 i ((threads ?s3 i)\<lparr>t_pc := Written\<rparr>))\<lparr>log := log ?s3 @ t_line (threads ?s3 i)\<rparr>"
  have r4: "reachable_with P ?s4"
    using r3 cstep.append_line [of ?s3 i] nc calls_ok_busy [of ?s3 i ?s4 P]
    by (auto intro: reachable_with.step)
  let ?s5 = "(set_thread ?s4 i ((threads ?s4 i)\<lparr>t_pc := Finished\<rparr>))\<lparr>holder := None\<rparr>"
  have r5: "reachable_with P ?s5"
    using r4 cstep.release [of ?s4 i] nc calls_ok_busy [of ?s4 i ?s5 P]
    by (auto intro: reachable_with.step)
  let ?t = "set_thread ?s5 i ((threads ?s5 i)\<lparr>t_pc := Idle\<rparr>)"
  have rt: "reachable_with P ?t"
    using r5 cstep.finish [of ?s5 i] nc calls_ok_busy [of ?s5 i ?t P]
    by (auto intro: reachable_with.step)
  show ?thesis
    using r1 r2 rt nc by (intro exI [of _ ?s1] exI [of _ ?s2] exI [of _ ?t]) simp
qed

lemma solo_callback:
  assumes r: "reachable s" and nc: "crashed s = None" and nh: "holder s = None"
    and idle: "t_pc (threads s i) = Idle"
    and ser: "bb_json (shared_id s) bb junk = Inr line"
  shows "\<exists>s1 s2 t. reachable s1 \<and> t_pc (threads s1 i) = Waiting \<and> crashed s1 = None \<and>
                 reachable s2 \<and> t_pc (threads s2 i) = Locked \<and>
                 reachable t \<and> crashed t = None \<and> holder t = None \<and> t_pc (threads t i) = Idle \<and>
                 log t = log s @ line \<and> shared_id t = shared_id s + 1"
  using solo_callback_with [of "\<lambda>_. True" s i bb junk line] r nc nh idle ser
  by (simp add: reachable_with_True)
subsection \<open>What holds in every reachable state\<close>

text \<open>
  C2. Under any interleaving of the callbacks of any number of threads, the log is
  the concatenation of whole lines, and its \<open>k\<close>-th line is exactly what a callback
  running with \<open>bb_id = k\<close> serializes: no line is torn or interleaved with another,
  and the identifiers appear as \<open>0, 1, 2, \<dots>\<close> in file order, never out of order and
  never twice.
\<close>

theorem concurrent_log_whole_records:
  assumes "reachable s"
  shows "\<exists>ents. log s = concat (map (\<lambda>(b, j, l). l) ents) \<and>
           (\<forall>k < length ents. case ents ! k of (b, j, l) \<Rightarrow> bb_json (word_of_nat k) b j = Inr l)"
proof -
  from reachable_conc_inv [OF assms] obtain ents where "log s = log_text ents" and "entries_ok ents"
    by (rule conc_invE)
  then show ?thesis
    by (auto simp: log_text_def entries_ok_def)
qed

theorem concurrent_log_whole_records_witness:
  "\<exists>s. reachable s \<and>
       log s = json_record 0 [\<lparr>instr_is_app = True, instr_app_pc = 0x2000, instr_text = ''ret''\<rparr>] \<and>
       (\<exists>ents. log s = concat (map (\<lambda>(b, j, l). l) ents) \<and>
          (\<forall>k < length ents. case ents ! k of (b, j, l) \<Rightarrow> bb_json (word_of_nat k) b j = Inr l))"
proof -
  let ?bb = "[\<lparr>instr_is_app = True, instr_app_pc = 0x2000, instr_text = ''ret''\<rparr>]"
  have "length (json_record 0 ?bb) \<le> 43 + 299 * length (bb_entries ?bb)"
    by (rule length_json_record_le)
  moreover have "length (bb_entries ?bb) = 1"
    by (simp add: bb_entries_def app_instrs_def max_instrs_def)
  ultimately have "bb_json 0 ?bb (\<lambda>_. nul) = Inr (json_record 0 ?bb)"
    by (intro bb_json_fits) (simp add: json_bufsz_def)
  then obtain t where rt: "reachable t" and lt: "log t = log init_sys @ json_record 0 ?bb"
    using solo_callback [OF reachable.start, of 0 ?bb "\<lambda>_. nul" "json_record 0 ?bb"]
    by (auto simp: init_sys_def idle_thread_def)
  from lt have "log t = json_record 0 ?bb"
    by (simp add: init_sys_def)
  with rt concurrent_log_whole_records [OF rt] show ?thesis
    by blast
qed

text \<open>
  C18. Mutual exclusion: in every reachable state at most one thread is between
  \<open>dr_mutex_lock\<close> and \<open>dr_mutex_unlock\<close>.
\<close>

theorem concurrent_mutual_exclusion:
  assumes "reachable s" and "in_cs (t_pc (threads s i))" and "in_cs (t_pc (threads s j))"
  shows "i = j"
proof -
  from reachable_conc_inv [OF assms(1)] obtain ents
    where "\<forall>k. in_cs (t_pc (threads s k)) \<longleftrightarrow> holder s = Some k"
    by (rule conc_invE)
  with assms(2,3) show ?thesis
    by auto
qed

theorem concurrent_mutual_exclusion_witness:
  "\<exists>s. reachable s \<and> in_cs (t_pc (threads s 0)) \<and> in_cs (t_pc (threads s 0)) \<and> (0::nat) = 0"
proof -
  let ?bb = "[] :: instrlist"
  have "length (json_record 0 ?bb) \<le> 43 + 299 * length (bb_entries ?bb)"
    by (rule length_json_record_le)
  then have "bb_json 0 ?bb (\<lambda>_. nul) = Inr (json_record 0 ?bb)"
    by (intro bb_json_fits) (simp add: json_bufsz_def bb_entries_def app_instrs_def)
  then obtain s2 where r2: "reachable s2" and l2: "t_pc (threads s2 0) = Locked"
    using solo_callback [OF reachable.start, of 0 ?bb "\<lambda>_. nul" "json_record 0 ?bb"]
    by (auto simp: init_sys_def idle_thread_def)
  then have "in_cs (t_pc (threads s2 0))"
    by simp
  with r2 show ?thesis
    using concurrent_mutual_exclusion [OF r2, of 0 0] by blast
qed

subsection \<open>Refinement of the sequential callback\<close>

text \<open>
  C7. The concurrent model refines the sequential one: whenever the sequential
  \<open>bb_instrumentation\<close> returns from a state that a quiescent concurrent state
  abstracts, any idle thread of the concurrent system can run the callback alone to
  a state that abstracts the sequential result, with the same \<open>bb_id\<close> and the same
  log.
\<close>

theorem bb_instrumentation_simulated:
  assumes abs: "seq_abs c s" and idle: "t_pc (threads s i) = Idle"
    and step: "bb_instrumentation c bb ft tr junk = Inr (c', fl)"
  shows "\<exists>t. seq_abs c' t \<and> t_pc (threads t i) = Idle"
proof -
  have rec: "recording c" and r: "reachable s" and nc: "crashed s = None" and nh: "holder s = None"
    and ids: "shared_id s = bb_id c" and lg: "log s = file_contents (world c) log_name"
    using abs by (simp_all add: seq_abs_def)
  have mx: "mutex c = Some MxFree"
    using rec by (simp add: recording_def)
  obtain line where ser: "bb_json (bb_id c) bb junk = Inr line"
    using step bb_instrumentation_serialize_fails [OF mx] by (cases "bb_json (bb_id c) bb junk") auto
  obtain c2 where st2: "bb_instrumentation c bb ft tr junk = Inr (c2, DR_EMIT_DEFAULT)"
    and rec2: "recording c2" and id2: "bb_id c2 = bb_id c + 1"
    and lg2: "file_contents (world c2) log_name = file_contents (world c) log_name @ line"
    using bb_instrumentation_appends [OF rec ser] by blast
  have "c' = c2"
    using step st2 by simp
  moreover obtain t where "reachable t" "crashed t = None" "holder t = None" "t_pc (threads t i) = Idle"
    and "log t = log s @ line" and "shared_id t = shared_id s + 1"
    using solo_callback [OF r nc nh idle] ser ids by fastforce
  ultimately show ?thesis
    using rec2 id2 lg2 ids lg by (auto simp: seq_abs_def)
qed

theorem bb_instrumentation_simulated_witness:
  "\<exists>c c'. seq_abs c init_sys \<and> t_pc (threads init_sys 0) = Idle \<and>
     bb_instrumentation c [\<lparr>instr_is_app = True, instr_app_pc = 0x2000, instr_text = ''ret''\<rparr>]
       False False (\<lambda>_. nul) = Inr (c', DR_EMIT_DEFAULT) \<and>
     (\<exists>t. seq_abs c' t \<and> t_pc (threads t 0) = Idle)"
proof -
  let ?w = "\<lparr>files = Map.empty, creatable = (\<lambda>_. True), fds = Map.empty, next_fd = 3, io_error = False, room = None\<rparr>"
  let ?bb = "[\<lparr>instr_is_app = True, instr_app_pc = 0x2000, instr_text = ''ret''\<rparr>]"
  obtain c where init: "dr_client_main (client_load ?w) = Inr c"
    using dr_client_main_ok [of "client_load ?w"] by (simp add: client_load_def)
  have rec: "recording c"
    using dr_client_main_recording [OF init] by (simp add: client_load_def)
  have id0: "bb_id c = 0"
    using dr_client_main_bb_id [OF init] by (simp add: client_load_def)
  have abs: "seq_abs c init_sys"
    using rec id0 dr_client_main_log_empty [OF init] reachable.start
    by (simp add: seq_abs_def init_sys_def)
  have idle: "t_pc (threads init_sys 0) = Idle"
    by (simp add: init_sys_def idle_thread_def)
  have "length (json_record 0 ?bb) \<le> 43 + 299 * length (bb_entries ?bb)"
    by (rule length_json_record_le)
  then have "bb_json 0 ?bb (\<lambda>_. nul) = Inr (json_record 0 ?bb)"
    by (intro bb_json_fits) (simp add: json_bufsz_def bb_entries_def app_instrs_def max_instrs_def)
  then have ser: "bb_json (bb_id c) ?bb (\<lambda>_. nul) = Inr (json_record 0 ?bb)"
    using id0 by simp
  obtain c' where st: "bb_instrumentation c ?bb False False (\<lambda>_. nul) = Inr (c', DR_EMIT_DEFAULT)"
    using bb_instrumentation_appends [OF rec ser, where ft = False and tr = False] by blast
  show ?thesis
    using bb_instrumentation_simulated [OF abs idle st] abs idle st by blast
qed

end
