(* ===== verification/Liveness.thy ===== *)
theory Liveness
  imports Concurrency
begin

text \<open>
  Liveness of the concurrent callbacks of \<open>Concurrency\<close>: a thread inside
  \<open>bb_instrumentation\<close> is never stuck (no deadlock on the mutex), and, by induction
  on the steps left in all running callbacks, from every reachable state the
  threads' own steps reach a state with no callback running, or a crash.
\<close>

text \<open>
  The threads inside a callback, and how far each still is from returning: a thread
  waiting for the mutex has five steps left, one that has returned none. \<open>work\<close>
  counts the steps left in all callbacks, plus one while a crash is still possible.
\<close>

definition active :: "sys \<Rightarrow> nat set" where
  "active s = {i. t_pc (threads s i) \<noteq> Idle}"

fun pc_rank :: "tpc \<Rightarrow> nat" where
  "pc_rank Idle = 0"
| "pc_rank Waiting = 5"
| "pc_rank Locked = 4"
| "pc_rank Serialized = 3"
| "pc_rank Written = 2"
| "pc_rank Finished = 1"

definition rank_sum :: "(nat \<Rightarrow> cthread) \<Rightarrow> nat" where
  "rank_sum ts = (\<Sum>i \<in> {i. t_pc (ts i) \<noteq> Idle}. pc_rank (t_pc (ts i)))"

definition work :: "sys \<Rightarrow> nat" where
  "work s = rank_sum (threads s) + (if crashed s = None then 1 else 0)"

subsection \<open>No deadlock\<close>

lemma active_fields [simp]:
  "active (s\<lparr>holder := h\<rparr>) = active s" "active (s\<lparr>log := l\<rparr>) = active s"
  "active (s\<lparr>shared_id := n\<rparr>) = active s" "active (s\<lparr>crashed := e\<rparr>) = active s"
  by (simp_all add: active_def)

lemma active_set_thread_sub:
  "t_pc (threads s i) \<noteq> Idle \<Longrightarrow> active (set_thread s i th) \<subseteq> active s"
  by (auto simp: active_def)

lemma noncall_stepI: "cstep s t \<Longrightarrow> active t \<subseteq> active s \<Longrightarrow> \<exists>t. cstep s t \<and> active t \<subseteq> active s"
  by blast

text \<open>
  A thread inside \<open>bb_instrumentation\<close> can always be followed by a step that starts
  no new callback, unless the process has crashed: the holder of the mutex moves on,
  and when the mutex is free a waiting thread takes it and a returning one returns.
\<close>

lemma progress_step:
  assumes r: "reachable s" and nc: "crashed s = None" and busy: "t_pc (threads s i) \<noteq> Idle"
  shows "\<exists>t. cstep s t \<and> active t \<subseteq> active s"
proof -
  from reachable_conc_inv [OF r] obtain ents
    where A: "\<forall>k. in_cs (t_pc (threads s k)) \<longleftrightarrow> holder s = Some k"
    by (rule conc_invE)
  show ?thesis
  proof (cases "holder s")
    case (Some h)
    with A have cs: "in_cs (t_pc (threads s h))"
      by simp
    show ?thesis
    proof (cases "t_pc (threads s h)")
      case Locked
      show ?thesis
      proof (cases "bb_json (shared_id s) (t_block (threads s h)) (t_junk (threads s h))")
        case (Inl e)
        show ?thesis by (rule noncall_stepI [OF cstep.format_fail [OF nc Locked Inl]]) simp
      next
        case (Inr line)
        show ?thesis by (rule noncall_stepI [OF cstep.format [OF nc Locked Inr]]) (simp add: active_set_thread_sub Locked)
      qed
    next
      case Serialized
      show ?thesis by (rule noncall_stepI [OF cstep.append_line [OF nc Serialized]]) (simp add: active_set_thread_sub Serialized)
    next
      case Written
      show ?thesis by (rule noncall_stepI [OF cstep.release [OF nc Written]]) (simp add: active_set_thread_sub Written)
    qed (use cs in simp_all)
  next
    case None
    with A have ncs: "\<not> in_cs (t_pc (threads s i))"
      by simp
    show ?thesis
    proof (cases "t_pc (threads s i)")
      case Waiting
      show ?thesis by (rule noncall_stepI [OF cstep.acquire [OF nc Waiting None]]) (simp add: active_set_thread_sub Waiting)
    next
      case Finished
      show ?thesis by (rule noncall_stepI [OF cstep.finish [OF nc Finished]]) (simp add: active_set_thread_sub Finished)
    qed (use busy ncs in simp_all)
  qed
qed

text \<open>
  C19. No deadlock: in every reachable state in which the process has not crashed, a
  thread that is inside a callback, waiting for the mutex or returning, can always
  be followed by some step of the system.
\<close>

theorem concurrent_progress:
  assumes "reachable s" and "crashed s = None" and "t_pc (threads s i) \<noteq> Idle"
  shows "\<exists>t. cstep s t \<and> active t \<subseteq> active s"
  using progress_step [OF assms] .

theorem concurrent_progress_witness:
  "\<exists>s. reachable s \<and> crashed s = None \<and> t_pc (threads s 0) \<noteq> Idle \<and>
       (\<exists>t. cstep s t \<and> active t \<subseteq> active s)"
proof -
  let ?bb = "[] :: instrlist"
  have "length (json_record 0 ?bb) \<le> 43 + 299 * length (bb_entries ?bb)"
    by (rule length_json_record_le)
  then have "bb_json 0 ?bb (\<lambda>_. nul) = Inr (json_record 0 ?bb)"
    by (intro bb_json_fits) (simp add: json_bufsz_def bb_entries_def app_instrs_def)
  then obtain s1 where r1: "reachable s1" and w1: "t_pc (threads s1 0) = Waiting"
    and c1: "crashed s1 = None"
    using solo_callback [OF reachable.start, of 0 ?bb "\<lambda>_. nul" "json_record 0 ?bb"]
    by (auto simp: init_sys_def idle_thread_def)
  then show ?thesis
    using concurrent_progress [OF r1 c1, of 0] by auto
qed

subsection \<open>Every callback returns\<close>

lemma pc_rank_zero [simp]: "pc_rank p = 0 \<longleftrightarrow> p = Idle"
  by (cases p) simp_all

lemma rank_sum_over:
  assumes "finite A" and "{i. t_pc (ts i) \<noteq> Idle} \<subseteq> A"
  shows "rank_sum ts = (\<Sum>i \<in> A. pc_rank (t_pc (ts i)))"
  unfolding rank_sum_def using assms by (intro sum.mono_neutral_left) auto

lemma rank_sum_update:
  assumes fin: "finite {i. t_pc (ts i) \<noteq> Idle}" and less: "pc_rank (t_pc th) < pc_rank (t_pc (ts i))"
  shows "rank_sum (ts(i := th)) < rank_sum ts"
proof -
  let ?A = "insert i {i. t_pc (ts i) \<noteq> Idle}"
  have fA: "finite ?A"
    using fin by simp
  have "rank_sum (ts(i := th)) = (\<Sum>j \<in> ?A. pc_rank (t_pc ((ts(i := th)) j)))"
    using fA by (intro rank_sum_over) auto
  also have "\<dots> = pc_rank (t_pc ((ts(i := th)) i)) + (\<Sum>j \<in> ?A - {i}. pc_rank (t_pc ((ts(i := th)) j)))"
    by (rule sum.remove [OF fA insertI1])
  also have "\<dots> = pc_rank (t_pc th) + (\<Sum>j \<in> ?A - {i}. pc_rank (t_pc (ts j)))"
    by (simp add: sum.cong [OF refl, of _ "\<lambda>j. pc_rank (t_pc ((ts(i := th)) j))" "\<lambda>j. pc_rank (t_pc (ts j))"])
  also have "\<dots> < pc_rank (t_pc (ts i)) + (\<Sum>j \<in> ?A - {i}. pc_rank (t_pc (ts j)))"
    using less by simp
  also have "\<dots> = (\<Sum>j \<in> ?A. pc_rank (t_pc (ts j)))"
    by (rule sum.remove [OF fA insertI1, symmetric])
  also have "\<dots> = rank_sum ts"
    using fA by (intro rank_sum_over [symmetric]) auto
  finally show ?thesis .
qed

lemma cstep_active: "cstep s t \<Longrightarrow> \<exists>i. active t \<subseteq> insert i (active s)"
  by (induction rule: cstep.induct) (auto simp: active_def)

lemma reachable_finite_active: "reachable s \<Longrightarrow> finite (active s)"
proof (induction rule: reachable.induct)
  case start
  then show ?case by (simp add: active_def init_sys_def idle_thread_def)
next
  case (step s t)
  then obtain i where "active t \<subseteq> insert i (active s)"
    using cstep_active by blast
  with step.IH show ?case
    using finite_subset by blast
qed

text \<open>A step that starts no callback leaves less work.\<close>

lemma cstep_work:
  assumes st: "cstep s t" and fin: "finite (active s)" and nc: "active t \<subseteq> active s"
  shows "work t < work s"
  using st
proof cases
  case (call i bb junk)
  then have "i \<in> active t" and "i \<notin> active s"
    by (simp_all add: active_def)
  with nc show ?thesis by blast
next
  case (format_fail i e)
  then show ?thesis by (simp add: work_def)
qed (use fin in \<open>auto simp: work_def active_def intro!: rank_sum_update\<close>)

text \<open>
  C20. Quiescence: from every reachable state, if DynamoRIO builds no more blocks, the
  threads' own steps lead to a state in which no thread is inside a callback, or to
  a crash; in particular every written record is complete and the mutex is free.
\<close>

theorem callbacks_quiesce:
  assumes "reachable s"
  shows "\<exists>t. (\<lambda>s t. cstep s t \<and> active t \<subseteq> active s)\<^sup>*\<^sup>* s t \<and>
             (active t = {} \<or> crashed t \<noteq> None)"
  using assms
proof (induction "work s" arbitrary: s rule: less_induct)
  case less
  show ?case
  proof (cases "active s = {} \<or> crashed s \<noteq> None")
    case True
    then show ?thesis by blast
  next
    case False
    then obtain i where "t_pc (threads s i) \<noteq> Idle" and nc: "crashed s = None"
      by (auto simp: active_def)
    then obtain t where st: "cstep s t" and sub: "active t \<subseteq> active s"
      using progress_step [OF less.prems] by blast
    have "work t < work s"
      using cstep_work [OF st reachable_finite_active [OF less.prems] sub] .
    moreover have "reachable t"
      using less.prems st by (rule reachable.step)
    ultimately obtain u where "(\<lambda>s t. cstep s t \<and> active t \<subseteq> active s)\<^sup>*\<^sup>* t u"
      and "active u = {} \<or> crashed u \<noteq> None"
      using less.hyps by blast
    with st sub show ?thesis
      by (blast intro: converse_rtranclp_into_rtranclp)
  qed
qed

theorem callbacks_quiesce_witness:
  "reachable init_sys \<and>
   (\<exists>t. (\<lambda>s t. cstep s t \<and> active t \<subseteq> active s)\<^sup>*\<^sup>* init_sys t \<and> (active t = {} \<or> crashed t \<noteq> None))"
  using callbacks_quiesce [OF reachable.start] reachable.start by blast

end
