(* ===== verification/Jsonl.thy ===== *)
theory Jsonl
  imports Serializer "HOL-Library.Monad_Syntax"
begin

text \<open>
  The consumer's side of the log format (\<open>bbv_output.jsonl\<close>): a reader for the
  lines the client prints, one JSON object per line of the schema
  \<open>{"bb_id": <int>, "instructions": [{"pc": "<string>", "disasm": "<string>"}, ...]}\<close>
  with the spacing the client uses. Strings are read as JSON reads them: a
  backslash starts an escape, a double quote ends the string, and raw control
  characters are refused. The reader accepts a sublanguage of JSON, so a line it
  accepts is valid JSON of the schema; a line it refuses (a trailing comma, an
  unescaped quote) is a malformed record. The round-trip lemmas show which records
  the client prints are read back as the block they describe.
\<close>

subsection \<open>Reading pieces\<close>

fun strip :: "string \<Rightarrow> string \<Rightarrow> string option" where
  "strip [] s = Some s"
| "strip (p # ps) [] = None"
| "strip (p # ps) (c # cs) = (if p = c then strip ps cs else None)"

definition is_digit :: "char \<Rightarrow> bool" where
  "is_digit c \<longleftrightarrow> 48 \<le> (of_char c :: nat) \<and> (of_char c :: nat) \<le> 57"

definition digit_val :: "char \<Rightarrow> nat" where
  "digit_val c = of_char c - 48"

fun read_nat_acc :: "nat \<Rightarrow> string \<Rightarrow> nat \<times> string" where
  "read_nat_acc a [] = (a, [])"
| "read_nat_acc a (c # cs) = (if is_digit c then read_nat_acc (10 * a + digit_val c) cs else (a, c # cs))"

definition starts_digit :: "string \<Rightarrow> bool" where
  "starts_digit s \<longleftrightarrow> s \<noteq> [] \<and> is_digit (hd s)"

definition read_digits :: "string \<Rightarrow> (nat \<times> string) option" where
  "read_digits s = (if starts_digit s then Some (read_nat_acc 0 s) else None)"

text \<open>A JSON integer: an optional minus sign and at least one digit.\<close>

definition read_int :: "string \<Rightarrow> (int \<times> string) option" where
  "read_int s =
     (case s of
        c # r \<Rightarrow> if c = CHR ''-'' then map_option (\<lambda>(n, r'). (- int n, r')) (read_digits r)
                 else map_option (\<lambda>(n, r'). (int n, r')) (read_digits s)
      | [] \<Rightarrow> None)"

text \<open>The single-character JSON escapes (the client never prints a backslash).\<close>

definition unescape :: "char \<Rightarrow> char option" where
  "unescape e =
     (if e = CHR ''\"'' then Some CHR ''\"''
      else if e = CHR 0x5C then Some CHR 0x5C
      else if e = CHR ''/'' then Some CHR ''/''
      else if e = CHR ''n'' then Some CHR 0x0A
      else if e = CHR ''t'' then Some CHR 0x09
      else if e = CHR ''r'' then Some CHR 0x0D
      else if e = CHR ''b'' then Some CHR 0x08
      else if e = CHR ''f'' then Some CHR 0x0C
      else None)"

text \<open>The body of a JSON string after its opening quote, up to and without its closing quote.\<close>

fun read_jstr :: "string \<Rightarrow> (string \<times> string) option" where
  "read_jstr [] = None"
| "read_jstr (c # cs) =
     (if c = CHR ''\"'' then Some ([], cs)
      else if c = CHR 0x5C then
        (case cs of
           [] \<Rightarrow> None
         | e # r \<Rightarrow> (case unescape e of
                       None \<Rightarrow> None
                     | Some u \<Rightarrow> map_option (\<lambda>(v, r'). (u # v, r')) (read_jstr r)))
      else if of_char c < (32::nat) then None
      else map_option (\<lambda>(v, r'). (c # v, r')) (read_jstr cs))"

text \<open>Characters a JSON string may hold unescaped.\<close>

definition json_char :: "char \<Rightarrow> bool" where
  "json_char c \<longleftrightarrow> c \<noteq> CHR ''\"'' \<and> c \<noteq> CHR 0x5C \<and> 32 \<le> (of_char c :: nat)"

definition json_safe :: "string \<Rightarrow> bool" where
  "json_safe s \<longleftrightarrow> list_all json_char s"

subsection \<open>Reading a record\<close>

definition read_entry :: "string \<Rightarrow> ((string \<times> string) \<times> string) option" where
  \<open>read_entry s = do {
     r1 \<leftarrow> strip ''{"pc": "'' s;
     (pc, r2) \<leftarrow> read_jstr r1;
     r3 \<leftarrow> strip '', "disasm": "'' r2;
     (d, r4) \<leftarrow> read_jstr r3;
     r5 \<leftarrow> strip ''}'' r4;
     Some ((pc, d), r5)
   }\<close>

lemma strip_length: "strip p s = Some r \<Longrightarrow> length r + length p = length s"
  by (induction p s rule: strip.induct) (auto split: if_splits)

lemma read_jstr_length: "read_jstr s = Some (v, r) \<Longrightarrow> length r < length s"
  by (induction s arbitrary: v rule: read_jstr.induct)
     (fastforce split: if_splits list.splits option.splits)+

lemma read_entry_length: "read_entry s = Some (e, r) \<Longrightarrow> length r < length s"
  by (auto simp: read_entry_def bind_eq_Some_conv dest!: strip_length read_jstr_length)

text \<open>The elements of the array: one or more objects separated by \<open>", "\<close>.\<close>

function read_entries :: "string \<Rightarrow> ((string \<times> string) list \<times> string) option" where
  "read_entries s =
     (case read_entry s of
        None \<Rightarrow> None
      | Some (e, r) \<Rightarrow>
          (case strip json_sep r of
             None \<Rightarrow> Some ([e], r)
           | Some r' \<Rightarrow> map_option (\<lambda>(es, r''). (e # es, r'')) (read_entries r')))"
  by pat_completeness auto
termination
  by (relation "measure length") (auto dest!: read_entry_length strip_length)

declare read_entries.simps [simp del]

definition read_array :: "string \<Rightarrow> ((string \<times> string) list \<times> string) option" where
  "read_array s =
     (case strip '']'' s of
        Some r \<Rightarrow> Some ([], r)
      | None \<Rightarrow> do { (es, r) \<leftarrow> read_entries s; r' \<leftarrow> strip '']'' r; Some (es, r') })"

text \<open>One line: the object and its terminating newline; the rest of the input is returned.\<close>

definition read_record :: "string \<Rightarrow> ((int \<times> (string \<times> string) list) \<times> string) option" where
  \<open>read_record s = do {
     r1 \<leftarrow> strip ''{"bb_id": '' s;
     (n, r2) \<leftarrow> read_int r1;
     r3 \<leftarrow> strip '', "instructions": ['' r2;
     (es, r4) \<leftarrow> read_array r3;
     r5 \<leftarrow> strip ''}'' r4;
     r6 \<leftarrow> strip [CHR 0x0A] r5;
     Some ((n, es), r6)
   }\<close>

text \<open>
  The whole log, read as the spec says a consumer reads it: split after each newline,
  every line read on its own as exactly one record.
\<close>

fun split_lines :: "string \<Rightarrow> string \<Rightarrow> string list" where
  "split_lines acc [] = (if acc = [] then [] else [acc])"
| "split_lines acc (c # cs) =
     (if c = CHR 0x0A then (acc @ [c]) # split_lines [] cs else split_lines (acc @ [c]) cs)"

definition read_line :: "string \<Rightarrow> (int \<times> (string \<times> string) list) option" where
  "read_line l = (case read_record l of Some (x, []) \<Rightarrow> Some x | _ \<Rightarrow> None)"

fun read_lines :: "string list \<Rightarrow> (int \<times> (string \<times> string) list) list option" where
  "read_lines [] = Some []"
| "read_lines (l # ls) =
     (case read_line l of None \<Rightarrow> None | Some x \<Rightarrow> map_option (Cons x) (read_lines ls))"

definition read_log :: "string \<Rightarrow> (int \<times> (string \<times> string) list) list option" where
  "read_log s = read_lines (split_lines [] s)"

subsection \<open>What a record stands for\<close>

text \<open>
  The values a consumer should read from the record of a block: for each listed
  instruction, its address text and its disassembly as \<open>instr_disassemble_to_buffer\<close>
  leaves it; and for a log, the identifier and entries of each line in order.
\<close>

definition entry_text :: "instr \<Rightarrow> string \<times> string" where
  "entry_text i = (fmt_ptr (instr_app_pc i), take (disasm_bufsz - 1) (instr_text i))"

fun log_values :: "32 word \<Rightarrow> instrlist list \<Rightarrow> (int \<times> (string \<times> string) list) list" where
  "log_values i [] = []"
| "log_values i (b # bs) = (sint i, map entry_text (bb_entries b)) # log_values (i + 1) bs"

subsection \<open>Reading back what the client prints\<close>

lemma strip_append [simp]: "strip p (p @ s) = Some s"
  by (induction p) auto

lemma is_digit_digit_char [simp]: "d < 10 \<Longrightarrow> is_digit (digit_char d)"
  and digit_val_digit_char [simp]: "d < 10 \<Longrightarrow> digit_val (digit_char d) = d"
  by (simp_all add: is_digit_def digit_val_def digit_char_def take_bit_eq_mod)

lemma read_nat_acc_digits:
  "list_all is_digit ds \<Longrightarrow>
   read_nat_acc a (ds @ r) = read_nat_acc (foldl (\<lambda>a c. 10 * a + digit_val c) a ds) r"
  by (induction ds arbitrary: a) auto

lemma read_nat_acc_stop: "\<not> starts_digit r \<Longrightarrow> read_nat_acc a r = (a, r)"
  by (cases r) (auto simp: starts_digit_def)

lemma dec_nat_digits: "list_all is_digit (dec_nat n)"
proof (induction n rule: dec_nat.induct)
  case (1 n)
  then show ?case by (subst dec_nat.simps) simp
qed

lemma foldl_dec_nat:
  "foldl (\<lambda>a c. 10 * a + digit_val c) a (dec_nat n) = a * 10 ^ length (dec_nat n) + n"
proof (induction n arbitrary: a rule: dec_nat.induct)
  case (1 n)
  show ?case
  proof (cases "n < 10")
    case True
    then show ?thesis by (subst (1 2) dec_nat.simps) simp
  next
    case False
    then have "foldl (\<lambda>a c. 10 * a + digit_val c) a (dec_nat n) =
                 10 * (a * 10 ^ length (dec_nat (n div 10)) + n div 10) + n mod 10"
      using "1.IH" by (subst dec_nat.simps) simp
    also have "\<dots> = a * 10 ^ length (dec_nat n) + n"
      using False by (subst (2) dec_nat.simps) simp
    finally show ?thesis .
  qed
qed

lemma dec_nat_hd: "\<exists>c cs. dec_nat n = c # cs \<and> is_digit c"
proof -
  have "dec_nat n \<noteq> []"
    by (subst dec_nat.simps) simp
  then obtain c cs where "dec_nat n = c # cs"
    by (cases "dec_nat n") auto
  with dec_nat_digits [of n] show ?thesis
    by simp
qed

lemma read_digits_dec_nat: "\<not> starts_digit r \<Longrightarrow> read_digits (dec_nat n @ r) = Some (n, r)"
proof -
  assume r: "\<not> starts_digit r"
  obtain c cs where "dec_nat n = c # cs" and "is_digit c"
    using dec_nat_hd by blast
  then have "starts_digit (dec_nat n @ r)"
    by (simp add: starts_digit_def)
  then show ?thesis
    using r by (simp add: read_digits_def read_nat_acc_digits dec_nat_digits foldl_dec_nat read_nat_acc_stop)
qed

lemma read_int_fmt_int: "\<not> starts_digit r \<Longrightarrow> read_int (fmt_int i @ r) = Some (i, r)"
proof (cases "i < 0")
  case True
  assume "\<not> starts_digit r"
  with True show ?thesis
    by (simp add: read_int_def fmt_int_def read_digits_dec_nat)
next
  case False
  assume r: "\<not> starts_digit r"
  obtain c cs where d: "dec_nat (nat i) = c # cs" and "is_digit c"
    using dec_nat_hd by blast
  then have "c \<noteq> CHR ''-''"
    by (auto simp: is_digit_def)
  with d False r show ?thesis
    using read_digits_dec_nat [OF r, of "nat i"] by (simp add: read_int_def fmt_int_def)
qed

lemma read_jstr_safe: "json_safe d \<Longrightarrow> read_jstr (d @ CHR ''\"'' # r) = Some (d, r)"
  by (induction d) (auto simp: json_safe_def json_char_def)

lemma json_char_of:
  "json_char c \<longleftrightarrow> 32 \<le> (of_char c :: nat) \<and> (of_char c :: nat) \<noteq> 34 \<and> (of_char c :: nat) \<noteq> 92"
proof -
  have "c = CHR ''\"'' \<longleftrightarrow> (of_char c :: nat) = of_char (CHR ''\"'')"
    and "c = CHR 0x5C \<longleftrightarrow> (of_char c :: nat) = of_char (CHR 0x5C)"
    by (metis of_char_of char_of_char)+
  then show ?thesis
    unfolding json_char_def by auto
qed

lemma json_safe_no_nul: "json_safe s \<Longrightarrow> nul \<notin> set s"
  by (auto simp: json_safe_def json_char_of list_all_iff)

lemma json_safe_take: "json_safe s \<Longrightarrow> json_safe (take n s)"
  by (auto simp: json_safe_def list_all_iff dest: in_set_takeD)

lemma fmt_str_disasm:
  assumes "json_safe (instr_text i)"
  shows "fmt_str (instr_disassemble_to_buffer i n) = take (n - 1) (instr_text i)"
proof -
  have t1: "takeWhile (\<lambda>c. c \<noteq> nul) (instr_text i) = instr_text i"
    using json_safe_no_nul [OF assms] by (auto simp: takeWhile_eq_all_conv)
  have t2: "takeWhile (\<lambda>c. c \<noteq> nul) (take (n - 1) (instr_text i)) = take (n - 1) (instr_text i)"
    using json_safe_no_nul [OF json_safe_take [OF assms]] by (auto simp: takeWhile_eq_all_conv)
  show ?thesis
    by (simp only: fmt_str_def instr_disassemble_to_buffer_def t1 t2)
qed

lemma json_safe_hex_fixed: "json_safe (hex_fixed k n)"
proof (induction k arbitrary: n)
  case (Suc k)
  have "n mod 16 < 16"
    by simp
  then have "json_char (hex_char (n mod 16))"
    by (simp add: json_char_of hex_char_def take_bit_eq_mod)
  with Suc show ?case
    by (simp add: json_safe_def)
qed (simp add: json_safe_def)

lemma json_safe_fmt_ptr: "json_safe (fmt_ptr p)"
  using json_safe_hex_fixed [of 16 "unat p"] by (simp add: fmt_ptr_def json_safe_def json_char_def)

lemma read_entry_entry_json:
  assumes "json_safe (instr_text i)"
  shows "read_entry (entry_json i @ r) = Some (entry_text i, r)"
proof -
  let ?d = "take 255 (instr_text i)"
  have d: "fmt_str (instr_disassemble_to_buffer i 256) = ?d"
    using fmt_str_disasm [OF assms, of 256] by simp
  have sd: "json_safe ?d"
    by (rule json_safe_take [OF assms])
  show ?thesis
    by (simp add: read_entry_def entry_json_def instr_json_def entry_text_def disasm_bufsz_def d
                  read_jstr_safe [OF json_safe_fmt_ptr] read_jstr_safe [OF sd])
qed

lemma read_entries_join:
  assumes "\<forall>i \<in> set es. json_safe (instr_text i)" and "es \<noteq> []" and "strip json_sep r = None"
  shows "read_entries (join_with json_sep (map entry_json es) @ r) = Some (map entry_text es, r)"
  using assms
proof (induction es)
  case (Cons x xs)
  show ?case
  proof (cases "xs = []")
    case True
    then show ?thesis
      using Cons.prems by (subst read_entries.simps) (simp add: read_entry_entry_json)
  next
    case False
    then have "join_with json_sep (map entry_json (x # xs)) @ r =
                 entry_json x @ json_sep @ join_with json_sep (map entry_json xs) @ r"
      by (simp add: join_with_Cons)
    moreover have "read_entries (join_with json_sep (map entry_json xs) @ r) = Some (map entry_text xs, r)"
      using Cons False by simp
    ultimately show ?thesis
      using Cons.prems(1) by (subst read_entries.simps) (simp add: read_entry_entry_json)
  qed
qed simp

lemma read_array_entries:
  assumes "\<forall>i \<in> set es. json_safe (instr_text i)"
  shows "read_array (join_with json_sep (map entry_json es) @ CHR '']'' # CHR ''}'' # r) =
           Some (map entry_text es, CHR ''}'' # r)"
proof (cases es)
  case Nil
  then show ?thesis by (simp add: read_array_def)
next
  case (Cons x xs)
  have "join_with json_sep (map entry_json es) @ CHR '']'' # CHR ''}'' # r =
          entry_json x @ (if xs = [] then [] else json_sep @ join_with json_sep (map entry_json xs)) @
          CHR '']'' # CHR ''}'' # r"
    using Cons by (simp add: join_with_Cons)
  then have "strip '']'' (join_with json_sep (map entry_json es) @ CHR '']'' # CHR ''}'' # r) = None"
    by (simp add: entry_json_def instr_json_def)
  moreover have "read_entries (join_with json_sep (map entry_json es) @ CHR '']'' # CHR ''}'' # r) =
                   Some (map entry_text es, CHR '']'' # CHR ''}'' # r)"
    using read_entries_join [OF assms] Cons by (simp add: json_sep_def)
  ultimately show ?thesis
    by (simp add: read_array_def)
qed

lemma json_safe_bb_entries:
  "\<forall>i \<in> set bb. json_safe (instr_text i) \<Longrightarrow> \<forall>i \<in> set (bb_entries bb). json_safe (instr_text i)"
  by (auto simp: bb_entries_def app_instrs_def dest: in_set_takeD)

lemma read_record_json_record:
  assumes "\<forall>i \<in> set bb. json_safe (instr_text i)"
  shows "read_record (json_record bid bb @ rest) = Some ((sint bid, map entry_text (bb_entries bb)), rest)"
proof -
  have \<open>\<not> starts_digit ('', "instructions": ['' @ r)\<close> for r
    by (simp add: starts_digit_def is_digit_def)
  then show ?thesis
    by (simp add: read_record_def json_record_def bb_header_def json_trailer_def read_int_fmt_int
                  read_array_entries [OF json_safe_bb_entries [OF assms]])
qed

subsection \<open>Lines\<close>

abbreviation newline :: char where
  "newline \<equiv> CHR 0x0A"

lemma split_lines_line:
  "newline \<notin> set l \<Longrightarrow> split_lines acc (l @ newline # r) = (acc @ l @ [newline]) # split_lines [] r"
  by (induction l arbitrary: acc) auto

lemma json_safe_no_newline: "json_safe s \<Longrightarrow> newline \<notin> set s"
  by (auto simp: json_safe_def json_char_of list_all_iff)

lemma newline_notin_fmt_int: "newline \<notin> set (fmt_int i)"
proof -
  have "newline \<notin> set (dec_nat n)" for n
    using dec_nat_digits [of n] by (auto simp: list_all_iff is_digit_def)
  then show ?thesis
    by (simp add: fmt_int_def)
qed

lemma newline_notin_entry_json:
  "json_safe (instr_text i) \<Longrightarrow> newline \<notin> set (entry_json i)"
  using json_safe_no_newline [OF json_safe_fmt_ptr, of "instr_app_pc i"]
        json_safe_no_newline [OF json_safe_take, of "instr_text i" 255]
  by (simp add: entry_json_def instr_json_def fmt_str_disasm disasm_bufsz_def)

lemma json_record_line:
  assumes "\<forall>i \<in> set bb. json_safe (instr_text i)"
  shows "\<exists>l. json_record bid bb = l @ [newline] \<and> newline \<notin> set l"
proof -
  have "newline \<notin> set (join_with json_sep (map entry_json (bb_entries bb)))"
    using set_join_with_subset [of json_sep "map entry_json (bb_entries bb)"]
          newline_notin_entry_json json_safe_bb_entries [OF assms]
    by (fastforce simp: json_sep_def)
  then show ?thesis
    using newline_notin_fmt_int [of "sint bid"]
    by (simp add: json_record_def bb_header_def json_trailer_def)
qed

lemma read_log_json_record:
  assumes "\<forall>i \<in> set bb. json_safe (instr_text i)"
  shows "read_log (json_record bid bb @ s) =
           map_option (Cons (sint bid, map entry_text (bb_entries bb))) (read_log s)"
proof -
  obtain l where l: "json_record bid bb = l @ [newline]" and nl: "newline \<notin> set l"
    using json_record_line [OF assms] by blast
  have "read_line (json_record bid bb) = Some (sint bid, map entry_text (bb_entries bb))"
    using read_record_json_record [OF assms, of bid "[]"] by (simp add: read_line_def)
  then show ?thesis
    using split_lines_line [OF nl, of "[]" s] l by (simp add: read_log_def)
qed

subsection \<open>Lines cut short\<close>

lemma strip_Some: "strip p s = Some r \<Longrightarrow> s = p @ r"
  by (induction p s rule: strip.induct) (auto split: if_splits)

lemma read_nat_acc_suffix: "\<exists>q. s = q @ snd (read_nat_acc a s)"
proof (induction a s rule: read_nat_acc.induct)
  case (2 a c cs)
  then show ?case
    by (cases "is_digit c") (auto intro: exI [of _ "c # _"])
qed simp

lemma read_int_suffix: "read_int s = Some (n, r) \<Longrightarrow> \<exists>q. s = q @ r"
  using read_nat_acc_suffix [of s 0]
  by (auto simp: read_int_def read_digits_def split: list.splits if_splits)
     (metis append_Cons read_nat_acc_suffix snd_conv)+

lemma read_jstr_suffix: "read_jstr s = Some (v, r) \<Longrightarrow> \<exists>q. s = q @ r"
proof (induction s arbitrary: v rule: read_jstr.induct)
  case (2 c cs)
  then show ?case
    by (fastforce split: if_splits list.splits option.splits intro: exI [of _ "c # _"] exI [of _ "c # _ # _"])
qed simp

lemma read_entry_suffix: "read_entry s = Some (e, r) \<Longrightarrow> \<exists>q. s = q @ r"
  by (auto simp: read_entry_def bind_eq_Some_conv dest!: strip_Some read_jstr_suffix)

lemma read_entries_suffix: "read_entries s = Some (es, r) \<Longrightarrow> \<exists>q. s = q @ r"
proof (induction s arbitrary: es rule: read_entries.induct)
  case (1 s)
  then show ?case
    by (subst (asm) read_entries.simps)
       (fastforce split: option.splits dest!: strip_Some read_entry_suffix)
qed

lemma read_array_suffix: "read_array s = Some (es, r) \<Longrightarrow> \<exists>q. s = q @ r"
  by (auto simp: read_array_def bind_eq_Some_conv split: option.splits
           dest!: strip_Some read_entries_suffix)

lemma read_record_newline: "read_record s = Some (x, r) \<Longrightarrow> \<exists>q. s = q @ newline # r"
  by (auto simp: read_record_def bind_eq_Some_conv
           dest!: strip_Some read_int_suffix read_array_suffix)

lemma read_line_newline: "read_line l = Some x \<Longrightarrow> \<exists>q. l = q @ [newline]"
  by (auto simp: read_line_def split: option.splits prod.splits list.splits dest!: read_record_newline)

lemma split_lines_no_newline:
  "newline \<notin> set t \<Longrightarrow> split_lines acc t = (if acc @ t = [] then [] else [acc @ t])"
  by (induction t arbitrary: acc) auto

text \<open>
  A log whose last line lacks its newline (a line cut short) is rejected as a
  whole: no line the reader accepts ends without one.
\<close>

lemma read_lines_torn:
  assumes "newline \<notin> set t" and "t \<noteq> []"
  shows "read_lines (split_lines acc (s @ t)) = None"
proof (induction s arbitrary: acc)
  case Nil
  have "read_line (acc @ t) = None"
  proof (rule ccontr)
    assume "read_line (acc @ t) \<noteq> None"
    then obtain q where "acc @ t = q @ [newline]"
      using read_line_newline by blast
    then have "last t = newline"
      using assms(2) by (metis last_appendR last_snoc)
    then show False
      using assms last_in_set by metis
  qed
  then show ?case
    using assms by (simp add: split_lines_no_newline)
next
  case (Cons c s)
  then show ?case
    by (simp split: option.split)
qed

lemma read_log_unterminated:
  assumes "s \<noteq> []" and "last s \<noteq> newline"
  shows "read_log s = None"
proof -
  let ?t = "rev (takeWhile (\<lambda>c. c \<noteq> newline) (rev s))"
  let ?s' = "rev (dropWhile (\<lambda>c. c \<noteq> newline) (rev s))"
  have split: "s = ?s' @ ?t"
    by (simp only: rev_append [symmetric] takeWhile_dropWhile_id rev_rev_ident)
  obtain x xs where rs: "rev s = x # xs"
    using assms(1) by (cases "rev s") simp_all
  then have xl: "x = last s"
    by (metis hd_rev list.sel(1))
  have "?t \<noteq> []"
    unfolding rs using xl assms(2) by simp
  moreover have "newline \<notin> set ?t"
    by (auto dest: set_takeWhileD)
  ultimately show ?thesis
    using read_lines_torn [of ?t "[]" ?s'] split by (simp add: read_log_def)
qed

subsection \<open>Round trips\<close>

text \<open>
  C21. A line the client means to write reads back as the block it describes: its
  identifier is the \<open>%d\<close> of \<open>bb_id\<close>, and its instructions are the first 64
  application instructions in program order, each with its address text and its
  disassembly cut to 255 characters, provided no disassembly holds a double quote,
  a backslash or a control character (the client does not escape them).
\<close>

theorem read_line_json_record:
  assumes "\<forall>i \<in> set bb. json_safe (instr_text i)"
  shows "read_line (json_record bid bb) = Some (sint bid, map entry_text (bb_entries bb))"
  using read_record_json_record [OF assms, of bid "[]"] by (simp add: read_line_def)

theorem read_line_json_record_witness:
  "json_safe ''mov eax, ebx'' \<and> json_safe ''add eax, 1'' \<and>
   read_line (json_record 0 [\<lparr>instr_is_app = True, instr_app_pc = 0x1000, instr_text = ''mov eax, ebx''\<rparr>,
                             \<lparr>instr_is_app = True, instr_app_pc = 0x1002, instr_text = ''add eax, 1''\<rparr>]) =
     Some (0, [(fmt_ptr 0x1000, ''mov eax, ebx''), (fmt_ptr 0x1002, ''add eax, 1'')])"
proof -
  have s: "json_safe ''mov eax, ebx''" "json_safe ''add eax, 1''"
    by (simp_all add: json_safe_def json_char_of)
  then show ?thesis
    using read_line_json_record
      [of "[\<lparr>instr_is_app = True, instr_app_pc = 0x1000, instr_text = ''mov eax, ebx''\<rparr>,
            \<lparr>instr_is_app = True, instr_app_pc = 0x1002, instr_text = ''add eax, 1''\<rparr>]" 0]
    by (simp add: bb_entries_def app_instrs_def max_instrs_def entry_text_def disasm_bufsz_def)
qed

subsection \<open>Malformed lines\<close>

text \<open>
  C15. The line written when the last entry overflows \<open>json_buf\<close> (the conclusion of
  \<open>bb_json_last_entry_overflow\<close>) is not a record: with a trailing comma before
  \<open>]}\<close>, or, when no entry fits, with the \<open>[\<close> of the array overwritten, no JSON
  reader accepts it.
\<close>

theorem read_line_overflow_rejected:
  assumes "\<forall>i \<in> set ys. json_safe (instr_text i)"
  shows "read_line (butlast (bb_header bid @ concat (map (\<lambda>y. entry_json y @ json_sep) ys)) @ json_trailer) = None"
proof (cases "ys = []")
  case True
  have \<open>butlast (bb_header bid) = ''{"bb_id": '' @ fmt_int (sint bid) @ '', "instructions": ''\<close>
    by (simp add: bb_header_def butlast_append)
  moreover have \<open>\<not> starts_digit ('', "instructions": ]}'' @ r)\<close> for r
    by (simp add: starts_digit_def is_digit_def)
  ultimately show ?thesis
    using True by (simp add: read_line_def read_record_def json_trailer_def read_int_fmt_int)
next
  case False
  let ?J = "join_with json_sep (map entry_json ys)"
  have line: "butlast (bb_header bid @ concat (map (\<lambda>y. entry_json y @ json_sep) ys)) @ json_trailer =
                bb_header bid @ ?J @ CHR '','' # CHR '']'' # CHR ''}'' # [newline]"
    using False by (simp add: concat_map_snoc_sep butlast_append json_sep_def json_trailer_def)
  have ents: "read_entries (?J @ CHR '','' # CHR '']'' # CHR ''}'' # [newline]) =
                Some (map entry_text ys, CHR '','' # CHR '']'' # CHR ''}'' # [newline])"
    using read_entries_join [OF assms False] by (simp add: json_sep_def)
  obtain x xs where "ys = x # xs"
    using False by (cases ys) auto
  then have "strip '']'' (?J @ CHR '','' # CHR '']'' # CHR ''}'' # [newline]) = None"
    by (simp add: join_with_Cons entry_json_def instr_json_def)
  with ents have "read_array (?J @ CHR '','' # CHR '']'' # CHR ''}'' # [newline]) = None"
    by (simp add: read_array_def)
  moreover have \<open>\<not> starts_digit ('', "instructions": ['' @ r)\<close> for r
    by (simp add: starts_digit_def is_digit_def)
  ultimately show ?thesis
    unfolding line by (simp add: read_line_def read_record_def bb_header_def read_int_fmt_int)
qed

theorem read_line_overflow_rejected_witness:
  "json_safe ''ret'' \<and>
   read_line (butlast (bb_header 0 @ concat (map (\<lambda>y. entry_json y @ json_sep)
     [\<lparr>instr_is_app = True, instr_app_pc = 0x1000, instr_text = ''ret''\<rparr>])) @ json_trailer) = None"
proof -
  have "json_safe ''ret''"
    by (simp add: json_safe_def json_char_of)
  then show ?thesis
    using read_line_overflow_rejected [of "[\<lparr>instr_is_app = True, instr_app_pc = 0x1000, instr_text = ''ret''\<rparr>]" 0]
    by simp
qed

end
