(* ===== verification/Dispatch.thy ===== *)
theory Dispatch
  imports Recorder
begin

text \<open>
  Host dispatch of the basic-block event. \<open>dr_client_main\<close> registers
  \<open>bb_instrumentation\<close> with \<open>drmgr_register_bb_instrumentation_event(NULL,
  bb_instrumentation, NULL)\<close> (line 27): as the \<^emph>\<open>insertion\<close> callback of drmgr's
  four-stage pipeline, with no analysis callback. drmgr's documentation says that
  the insertion callback is called for each application instruction of the block,
  with that instruction as its \<open>instr\<close> argument, and that its result flags are
  combined. The client ignores \<open>instr\<close>, so each call formats and writes the whole
  block again. \<open>drmgr_insertion\<close> is that per-instruction loop and
  \<open>drmgr_bb_event\<close> the dispatch of one block; each call gets its own stack
  contents \<open>J k\<close>. The theorem states what the log receives for one block.
\<close>

fun drmgr_insertion ::
  "client \<Rightarrow> instrlist \<Rightarrow> bool \<Rightarrow> bool \<Rightarrow> (nat \<Rightarrow> nat \<Rightarrow> char) \<Rightarrow> nat \<Rightarrow> instr list \<Rightarrow> dr_error + client"
where
  "drmgr_insertion c bb ft tr J k [] = Inr c"
| "drmgr_insertion c bb ft tr J k (inst # rest) =
     ebind (bb_instrumentation c bb ft tr (J k))
       (\<lambda>(c', _). drmgr_insertion c' bb ft tr J (Suc k) rest)"

definition drmgr_bb_event ::
  "client \<Rightarrow> instrlist \<Rightarrow> bool \<Rightarrow> bool \<Rightarrow> (nat \<Rightarrow> nat \<Rightarrow> char) \<Rightarrow> dr_error + client"
where
  "drmgr_bb_event c bb ft tr J = drmgr_insertion c bb ft tr J 0 (app_instrs bb)"

text \<open>
  A run: DynamoRIO builds the blocks one after another (the sequential view of
  \<open>Recorder\<close>), each with its flags and the stack contents of each call.
\<close>

fun run_blocks ::
  "client \<Rightarrow> (instrlist \<times> bool \<times> bool \<times> (nat \<Rightarrow> nat \<Rightarrow> char)) list \<Rightarrow> dr_error + client"
where
  "run_blocks c [] = Inr c"
| "run_blocks c ((bb, ft, tr, J) # bs) = ebind (drmgr_bb_event c bb ft tr J) (\<lambda>c'. run_blocks c' bs)"

text \<open>The insertion calls for one block are the block events of \<open>run_events\<close>, one per instruction.\<close>

definition insertion_events :: "instrlist \<Rightarrow> bool \<Rightarrow> bool \<Rightarrow> (nat \<Rightarrow> nat \<Rightarrow> char) \<Rightarrow> nat \<Rightarrow> nat \<Rightarrow> bb_event list" where
  "insertion_events bb ft tr J k n =
     map (\<lambda>j. \<lparr>ev_bb = bb, ev_for_trace = ft, ev_translating = tr, ev_junk = J j\<rparr>) [k..<k + n]"

definition block_events ::
  "(instrlist \<times> bool \<times> bool \<times> (nat \<Rightarrow> nat \<Rightarrow> char)) list \<Rightarrow> bb_event list"
where
  "block_events bs =
     concat (map (\<lambda>(bb, ft, tr, J). insertion_events bb ft tr J 0 (length (app_instrs bb))) bs)"

lemma drmgr_insertion_run_events:
  "drmgr_insertion c bb ft tr J k is = run_events c (insertion_events bb ft tr J k (length is))"
proof (induction "is" arbitrary: c k)
  case Nil
  then show ?case by (simp add: insertion_events_def)
next
  case (Cons inst rest)
  have "insertion_events bb ft tr J k (length (inst # rest)) =
          \<lparr>ev_bb = bb, ev_for_trace = ft, ev_translating = tr, ev_junk = J k\<rparr> #
          insertion_events bb ft tr J (Suc k) (length rest)"
    by (simp add: insertion_events_def upt_conv_Cons del: upt_Suc)
  then show ?case
    using Cons.IH by (simp add: split_def)
qed

lemma insertion_events_bb [simp]:
  "length (insertion_events bb ft tr J k n) = n"
  "j < n \<Longrightarrow> ev_bb (insertion_events bb ft tr J k n ! j) = bb"
  "map ev_bb (insertion_events bb ft tr J k n) = replicate n bb"
  by (simp_all add: insertion_events_def o_def map_replicate_const)

lemma run_blocks_run_events: "run_blocks c bs = run_events c (block_events bs)"
  by (induction bs arbitrary: c)
     (auto simp: block_events_def run_events_append drmgr_bb_event_def drmgr_insertion_run_events)

lemma map_ev_bb_block_events:
  "map ev_bb (block_events bs) = concat (map (\<lambda>(bb, ft, tr, J). replicate (length (app_instrs bb)) bb) bs)"
  by (induction bs) (auto simp: block_events_def)

lemma block_events_blocks:
  "e \<in> set (block_events bs) \<Longrightarrow> \<exists>ft tr J. (ev_bb e, ft, tr, J) \<in> set bs"
proof -
  assume "e \<in> set (block_events bs)"
  then have "ev_bb e \<in> set (map ev_bb (block_events bs))"
    by simp
  then show ?thesis
    unfolding map_ev_bb_block_events by (auto split: prod.splits)
qed

subsection \<open>What one block event writes\<close>

text \<open>
  C8. One record per application instruction: when DynamoRIO builds a block with
  \<open>n\<close> application instructions on a recording client, drmgr calls the callback
  \<open>n\<close> times and the log receives \<open>n\<close> copies of the block's record, numbered
  \<open>bb_id, bb_id + 1, \<dots>\<close>; a block with no application instruction writes nothing.
  The spec asks for exactly one record per block.
\<close>

theorem drmgr_bb_event_record_per_instr:
  assumes rec: "recording c"
    and fit: "\<forall>k < length (app_instrs bb). length (json_record (bb_id c + word_of_nat k) bb) < json_bufsz"
  shows "\<exists>c'. drmgr_bb_event c bb ft tr J = Inr c' \<and>
              bb_id c' = bb_id c + word_of_nat (length (app_instrs bb)) \<and>
              file_contents (world c') log_name =
                file_contents (world c) log_name @
                expected_log (bb_id c) (replicate (length (app_instrs bb)) bb)"
proof -
  let ?es = "insertion_events bb ft tr J 0 (length (app_instrs bb))"
  have "\<forall>k < length ?es. length (json_record (bb_id c + word_of_nat k) (ev_bb (?es ! k))) < json_bufsz"
    using fit by simp
  then show ?thesis
    using run_events_appends [OF rec, of ?es]
    by (simp add: drmgr_bb_event_def drmgr_insertion_run_events) blast
qed

theorem drmgr_bb_event_record_per_instr_witness:
  "(let w = \<lparr>files = Map.empty, creatable = (\<lambda>_. True), fds = Map.empty, next_fd = 3, io_error = False, room = None\<rparr>;
        bb = [\<lparr>instr_is_app = True, instr_app_pc = 0x1000, instr_text = ''mov eax, ebx''\<rparr>,
              \<lparr>instr_is_app = True, instr_app_pc = 0x1002, instr_text = ''add eax, 1''\<rparr>]
    in \<exists>c. dr_client_main (client_load w) = Inr c \<and> recording c \<and>
           length (json_record (bb_id c) bb) < json_bufsz \<and>
           length (json_record (bb_id c + 1) bb) < json_bufsz \<and>
           (\<exists>c'. drmgr_bb_event c bb False False (\<lambda>_ _. nul) = Inr c' \<and> bb_id c' = 2 \<and>
                 file_contents (world c') log_name = json_record 0 bb @ json_record 1 bb))"
proof -
  let ?w = "\<lparr>files = Map.empty, creatable = (\<lambda>_. True), fds = Map.empty, next_fd = 3, io_error = False, room = None\<rparr>"
  let ?bb = "[\<lparr>instr_is_app = True, instr_app_pc = 0x1000, instr_text = ''mov eax, ebx''\<rparr>,
              \<lparr>instr_is_app = True, instr_app_pc = 0x1002, instr_text = ''add eax, 1''\<rparr>]"
  obtain c where init: "dr_client_main (client_load ?w) = Inr c"
    using dr_client_main_ok [of "client_load ?w"] by (simp add: client_load_def)
  have rec: "recording c"
    using dr_client_main_recording [OF init] by (simp add: client_load_def)
  have id0: "bb_id c = 0"
    using dr_client_main_bb_id [OF init] by (simp add: client_load_def)
  have empty: "file_contents (world c) log_name = []"
    using dr_client_main_log_empty [OF init] by simp
  have "length (json_record bid ?bb) < json_bufsz" for bid
  proof -
    have "length (json_record bid ?bb) \<le> 43 + 299 * length (bb_entries ?bb)"
      by (rule length_json_record_le)
    moreover have "length (bb_entries ?bb) = 2"
      by (simp add: bb_entries_def app_instrs_def max_instrs_def)
    ultimately show ?thesis
      by (simp add: json_bufsz_def)
  qed
  moreover have "app_instrs ?bb = ?bb"
    by (simp add: app_instrs_def)
  ultimately show ?thesis
    using drmgr_bb_event_record_per_instr [OF rec, of ?bb False False "\<lambda>_ _. nul"] init rec id0 empty
    by (simp add: Let_def numeral_2_eq_2)
qed

end
