(* ===== verification/Short_Writes.thy ===== *)
theory Short_Writes
  imports Recorder
begin

text \<open>
  The recorder on a device that fills up. \<open>bb_instrumentation\<close> writes its line with
  \<open>dr_write_file(log_file, json_buf, strlen(json_buf))\<close> (line 76) and ignores the
  count it returns. When the device has room for fewer bytes than the line, the
  write is short: only the head of the line reaches the file. Then the device is
  full and every later write fails with \<open>-1\<close>, and the callbacks go on numbering
  blocks. The lemmas here state what the log holds after a run on a device with
  \<open>r\<close> free bytes: the first \<open>r\<close> bytes of the log the run should produce.
\<close>

text \<open>
  \<open>logging c\<close>: \<open>recording c\<close> without the assumption that the device never fills.
\<close>

definition logging :: "client \<Rightarrow> bool" where
  "logging c \<longleftrightarrow>
     mutex c = Some MxFree \<and> \<not> io_error (world c) \<and>
     (\<exists>n. log_file c = FD n \<and> fds (world c) n = Some log_name)"

lemma dr_client_main_logging:
  assumes "dr_client_main c = Inr c'" and "\<not> io_error (world c)"
  shows "logging c' \<and>
         room (world c') = map_option (\<lambda>r. r + length (file_contents (world c) log_name)) (room (world c))"
proof (cases "creatable (world c) log_name")
  case True
  then show ?thesis
    using assms by (auto simp: dr_client_main_ok logging_def)
next
  case False
  then show ?thesis
    using assms by (simp add: dr_client_main_fail)
qed

text \<open>The client as \<open>dr_client_main\<close> leaves it on a device with \<open>r\<close> free bytes.\<close>

lemma dr_client_main_fills:
  assumes init: "dr_client_main (client_load w) = Inr c" and io: "\<not> io_error w" and rm: "room w = Some r"
  shows "logging c \<and> room (world c) = Some (r + length (file_contents w log_name)) \<and> bb_id c = 0 \<and>
         file_contents (world c) log_name = []"
  using dr_client_main_logging [of "client_load w" c] dr_client_main_bb_id [OF init]
    dr_client_main_log_empty [OF init] init io rm
  by (simp add: client_load_def)

text \<open>One callback on a device with \<open>r\<close> free bytes appends the first \<open>r\<close> bytes of its line.\<close>

lemma bb_instrumentation_short:
  assumes lg: "logging c" and rm: "room (world c) = Some r"
    and ser: "bb_json (bb_id c) bb junk = Inr line"
  shows "\<exists>c'. bb_instrumentation c bb ft tr junk = Inr (c', DR_EMIT_DEFAULT) \<and> logging c' \<and>
              bb_id c' = bb_id c + 1 \<and> room (world c') = Some (r - min r (length line)) \<and>
              file_contents (world c') log_name = file_contents (world c) log_name @ take r line"
proof -
  obtain n where lf: "log_file c = FD n" and fd: "fds (world c) n = Some log_name"
    and mx: "mutex c = Some MxFree" and io: "\<not> io_error (world c)"
    using lg by (auto simp: logging_def)
  let ?w = "fst (dr_write_file (world c) (FD n) line)"
  have "bb_instrumentation c bb ft tr junk =
          Inr (c\<lparr>mutex := Some MxHeld, bb_id := bb_id c + 1\<rparr>\<lparr>world := ?w, mutex := Some MxFree\<rparr>,
               DR_EMIT_DEFAULT)"
    using lf mx ser
    by (simp add: bb_instrumentation_def dr_mutex_lock_def dr_mutex_unlock_def split_def)
  moreover have "logging (c\<lparr>mutex := Some MxHeld, bb_id := bb_id c + 1\<rparr>\<lparr>world := ?w, mutex := Some MxFree\<rparr>)"
    using lf fd io dr_write_file_frame [of "world c" "FD n" line] by (auto simp: logging_def)
  moreover have "file_contents ?w log_name = file_contents (world c) log_name @ take r line \<and>
                 room ?w = Some (r - min r (length line))"
    by (rule dr_write_file_short [OF fd io rm])
  ultimately show ?thesis
    by simp
qed

lemma run_events_fills:
  assumes "logging c" and "room (world c) = Some r"
    and "\<forall>k < length es. length (json_record (bb_id c + word_of_nat k) (ev_bb (es ! k))) < json_bufsz"
  shows "\<exists>c'. run_events c es = Inr c' \<and> bb_id c' = bb_id c + word_of_nat (length es) \<and>
              file_contents (world c') log_name =
                file_contents (world c) log_name @ take r (expected_log (bb_id c) (map ev_bb es))"
  using assms
proof (induction es arbitrary: c r)
  case Nil
  then show ?case by simp
next
  case (Cons e es)
  have "length (json_record (bb_id c) (ev_bb e)) < json_bufsz"
    using Cons.prems(3) by (drule_tac x = 0 in spec) simp
  then have ser: "bb_json (bb_id c) (ev_bb e) (ev_junk e) = Inr (json_record (bb_id c) (ev_bb e))"
    by (rule bb_json_fits)
  obtain c1 where step: "bb_instrumentation c (ev_bb e) (ev_for_trace e) (ev_translating e) (ev_junk e) =
                           Inr (c1, DR_EMIT_DEFAULT)"
    and lg1: "logging c1" and id1: "bb_id c1 = bb_id c + 1"
    and rm1: "room (world c1) = Some (r - min r (length (json_record (bb_id c) (ev_bb e))))"
    and log1: "file_contents (world c1) log_name =
                 file_contents (world c) log_name @ take r (json_record (bb_id c) (ev_bb e))"
    using bb_instrumentation_short [OF Cons.prems(1,2) ser] by blast
  have "\<forall>k < length es. length (json_record (bb_id c1 + word_of_nat k) (ev_bb (es ! k))) < json_bufsz"
    using fit_shift [where P = "\<lambda>b e. length (json_record b (ev_bb e)) < json_bufsz", OF Cons.prems(3)] id1
    by simp
  then obtain c' where run: "run_events c1 es = Inr c'"
    and id': "bb_id c' = bb_id c1 + word_of_nat (length es)"
    and log': "file_contents (world c') log_name =
                 file_contents (world c1) log_name @
                 take (r - min r (length (json_record (bb_id c) (ev_bb e))))
                   (expected_log (bb_id c1) (map ev_bb es))"
    using Cons.IH [OF lg1 rm1] by blast
  have "r - min r (length (json_record (bb_id c) (ev_bb e))) = r - length (json_record (bb_id c) (ev_bb e))"
    by simp
  then show ?case
    using step run id' log' id1 log1 by (simp add: add.assoc)
qed

subsection \<open>A run on a device that fills up\<close>

text \<open>
  C11. A run of the client on a device with \<open>r\<close> free bytes: after
  \<open>dr_client_main\<close> has opened the log (truncating it frees the bytes of its old
  contents), every callback of a sequence of basic-block events whose records fit
  in \<open>json_buf\<close> returns normally and advances \<open>bb_id\<close>, and the log holds the
  first \<open>r\<close> bytes of the log of \<open>client_run_log\<close>, plus the bytes the old log
  freed: when the device fills, the last record written is cut short and the
  records after it are lost, while \<open>bb_id\<close> goes on counting them.
\<close>

theorem client_run_log_disk_full:
  assumes init: "dr_client_main (client_load w) = Inr c" and io: "\<not> io_error w" and rm: "room w = Some r"
    and fit: "\<forall>k < length es. length (json_record (word_of_nat k) (ev_bb (es ! k))) < json_bufsz"
  shows "\<exists>c'. run_events c es = Inr c' \<and> bb_id c' = word_of_nat (length es) \<and>
              file_contents (world c') log_name =
                take (r + length (file_contents w log_name)) (expected_log 0 (map ev_bb es))"
proof -
  have lg: "logging c" and rm0: "room (world c) = Some (r + length (file_contents w log_name))"
    and id0: "bb_id c = 0" and empty: "file_contents (world c) log_name = []"
    using dr_client_main_fills [OF init io rm] by simp_all
  then show ?thesis
    using run_events_fills [OF lg rm0, of es] fit by simp
qed

theorem client_run_log_disk_full_witness:
  \<open>(let w = \<lparr>files = [log_name \<mapsto> ''old''], creatable = (\<lambda>_. True), fds = Map.empty, next_fd = 3,
            io_error = False, room = Some 7\<rparr>;
        i = \<lparr>instr_is_app = True, instr_app_pc = 0x2000, instr_text = ''ret''\<rparr>;
        es = [\<lparr>ev_bb = [i], ev_for_trace = False, ev_translating = False, ev_junk = (\<lambda>_. CHR ''?'')\<rparr>]
    in \<exists>c. dr_client_main (client_load w) = Inr c \<and> \<not> io_error w \<and> room w = Some 7 \<and>
           length (json_record 0 [i]) < json_bufsz \<and>
           (\<exists>c'. run_events c es = Inr c' \<and> bb_id c' = 1 \<and>
                 file_contents (world c') log_name = ''{"bb_id": ''))\<close>
proof -
  let ?w = "\<lparr>files = [log_name \<mapsto> ''old''], creatable = (\<lambda>_. True), fds = Map.empty, next_fd = 3,
            io_error = False, room = Some 7\<rparr>"
  let ?i = "\<lparr>instr_is_app = True, instr_app_pc = 0x2000, instr_text = ''ret''\<rparr>"
  let ?es = "[\<lparr>ev_bb = [?i], ev_for_trace = False, ev_translating = False, ev_junk = (\<lambda>_. CHR ''?'')\<rparr>]"
  obtain c where init: "dr_client_main (client_load ?w) = Inr c"
    using dr_client_main_ok [of "client_load ?w"] by (simp add: client_load_def)
  have "length (json_record 0 [?i]) \<le> 43 + 299 * length (bb_entries [?i])"
    by (rule length_json_record_le)
  moreover have "length (bb_entries [?i]) = 1"
    by (simp add: bb_entries_def app_instrs_def max_instrs_def)
  ultimately have fit: "length (json_record 0 [?i]) < json_bufsz"
    by (simp add: json_bufsz_def)
  have cut: \<open>take 10 (json_record 0 [?i]) = ''{"bb_id": ''\<close>
    by (simp add: json_record_def bb_header_def)
  show ?thesis
    using client_run_log_disk_full [OF init, of 7 ?es] init fit cut
    by (simp add: Let_def file_contents_def log_name_def numeral_eq_Suc)
qed

end
