(* ===== verification/Spec2Isabelle.thy ===== *)
theory Spec2Isabelle
  imports Liveness Jsonl Dispatch Short_Writes
begin

text \<open>
  \<^bold>\<open>Verification of the DynamoRIO basic-block-vector client\<close>
  (\<open>src/client_bbv/client_bbv.c\<close>).

  \<^bold>\<open>The program.\<close> The client is loaded by DynamoRIO, which calls
  \<open>dr_client_main\<close> (lines 20--38): it registers the exit event and, through
  \<open>drmgr\<close>, the basic-block instrumentation event, creates a mutex, and opens
  \<open>bbv_output.jsonl\<close> with \<open>DR_FILE_WRITE_OVERWRITE\<close>, asserting that the open
  succeeded. Every time DynamoRIO builds a basic block it calls \<open>bb_instrumentation\<close>
  (lines 49--80) on the translating thread: under the mutex, the callback formats one
  JSON line \<open>{"bb_id": N, "instructions": [{"pc": "0x...", "disasm": "..."}, ...]}\<close>
  into a 4096-byte stack buffer with \<open>dr_snprintf\<close>, for at most 64 application
  instructions, post-increments the static counter \<open>bb_id\<close>, and appends the buffer
  up to its first NUL to the log with \<open>dr_write_file\<close>. \<open>event_exit\<close>
  (lines 40--47) closes the log.

  \<^bold>\<open>Theories.\<close>
  \<^item> \<open>Prelude\<close>: the error bind \<open>ebind\<close> over \<open>'e + 'a\<close>, C strings, \<open>buf_write\<close>
    (a store into a fixed array), \<open>strlen_opt\<close> (\<open>None\<close> when no NUL: the read runs
    off the array), \<open>join_with\<close>, and the collection \<open>cbuf_simps\<close>.
  \<^item> \<open>DR_API\<close>: the DynamoRIO functions the client calls, from their documentation:
    \<open>dr_snprintf\<close> (returns the length, or \<open>-1\<close> and no NUL when the output does not
    fit), the conversions \<open>%d\<close> (\<open>fmt_int\<close> of a \<open>32 word\<close> read by \<open>sint\<close>), \<open>%p\<close>
    (\<open>fmt_ptr\<close>: \<open>0x\<close> and 16 hex digits of a \<open>64 word\<close>), \<open>%s\<close>; instructions as a
    record and \<open>instrlist_first_app\<close>/\<open>instr_get_next_app\<close> as \<open>app_instrs\<close>;
    \<open>instr_disassemble_to_buffer\<close> (truncates to 255 characters); the mutex.
  \<^item> \<open>Serializer\<close>: lines 51--76 of \<open>bb_instrumentation\<close> up to \<open>strlen\<close>:
    \<open>json_state\<close> is \<open>(json_buf, json_offset)\<close>, \<open>json_emit\<close> is the statement
    \<open>json_offset += dr_snprintf(json_buf + json_offset, sizeof(json_buf) - json_offset, ...)\<close>
    with the \<open>size_t\<close> wrap of the size written out, \<open>bb_loop\<close> is the \<open>for\<close> loop
    (lines 61--72) with its separator guard, \<open>bb_json\<close> the whole formatting
    including the uninitialised stack contents \<open>junk\<close> of \<open>json_buf\<close>.
    \<open>json_record\<close> is the line the client means to write.
  \<^item> \<open>Sink\<close>: the file API over an explicit file system (\<open>world\<close>): the contents
    of each path, the open descriptors, a failing-device flag and the device's free
    space \<open>room\<close>; \<open>dr_write_file\<close> appends only the bytes that fit, as the
    \<open>write\<close> system call it wraps does, and fails with \<open>-1\<close> on a full device.
  \<^item> \<open>Recorder\<close>: the client's globals as the record \<open>client\<close> (\<open>log_file\<close>,
    \<open>mutex\<close>, \<open>bb_id :: 32 word\<close>, the client's name, the extensions and
    registrations, DynamoRIO's log, the world); the DynamoRIO calls of the lifecycle
    (\<open>dr_set_client_name\<close>, \<open>drmgr_init\<close>, \<open>drutil_init\<close>, the registrations,
    \<open>dr_mutex_create\<close>/\<open>dr_mutex_destroy\<close>, \<open>dr_log\<close>, \<open>drutil_exit\<close>,
    \<open>drmgr_exit\<close>) one definition each; \<open>log_path\<close> is the name printed into the
    uninitialised stack array \<open>logfilename[MAXIMUM_PATH]\<close> and read back as a C
    string; \<open>dr_client_main\<close>, \<open>bb_instrumentation\<close> and \<open>event_exit\<close> compose
    them as the source does, returning \<open>dr_error + _\<close> (a failed assertion, a read
    out of bounds, a mutex misuse are errors); \<open>run_events\<close> runs a sequence of
    block events in order.
  \<^item> \<open>Concurrency\<close>: DynamoRIO may call the callback on several threads at once. The
    inductive relation \<open>cstep\<close> interleaves the callback's atomic steps
    (call, lock, format with \<open>bb_id++\<close>, write, unlock, return) of any number of
    threads over the shared \<open>bb_id\<close>, the mutex holder and the log; \<open>reachable\<close>
    is its reflexive-transitive closure from the state after initialisation;
    \<open>seq_abs\<close> relates it to the sequential model.
  \<^item> \<open>Liveness\<close>: over the same model, progress (no deadlock on the mutex) and
    quiescence, by induction on the measure \<open>work\<close> (the steps left in all running
    callbacks, ranked by \<open>pc_rank\<close>).
  \<^item> \<open>Dispatch\<close>: drmgr's insertion phase, from its documentation: the callback
    registered at line 27 is called once per application instruction of a block
    (\<open>drmgr_insertion\<close>, \<open>drmgr_bb_event\<close>), as a sequence of \<open>run_events\<close>;
    \<open>run_blocks\<close> is a run of block builds.
  \<^item> \<open>Short_Writes\<close>: the recorder on a device with \<open>r\<close> free bytes; \<open>logging\<close> is
    the recording state without the assumption that the device never fills.
  \<^item> \<open>Jsonl\<close>: the log format of the spec (section 6) from the consumer's side: a
    reader \<open>read_log\<close> that splits the file after each newline and reads every
    line as one record \<open>{"bb_id": <int>, "instructions": [...]}\<close>, with JSON strings
    (escapes, no raw control characters). It models no code; the client's output is
    checked against it.

  \<^bold>\<open>What is proved.\<close> A sequential run writes exactly the records \<open>json_record k\<close> for
  \<open>k = 0, 1, \<dots>\<close>, when they fit (\<open>client_run_log\<close>); under any interleaving the log is a
  sequence of whole lines, the \<open>k\<close>-th produced with \<open>bb_id = k\<close>
  (\<open>concurrent_log_whole_records\<close>, by rule induction over the invariant
  \<open>conc_inv\<close>), at most one thread is in the critical section, and no reachable
  state deadlocks. The serializer never stores outside \<open>json_buf\<close>, and either stops
  on the \<open>strlen\<close> overrun or yields a NUL-free line shorter than the buffer;
  blocks of at most 13 application instructions are written exactly; when the last
  record does not fit, the line loses it and ends in \<open>",]}"\<close> (a malformed JSON
  line); a failed write is ignored; in the log of a run the record after \<open>k\<close>
  records carries \<open>k\<close> below \<open>2^31\<close> and the negative \<open>k - 2^32\<close> after
  (\<open>run_record_ids_count\<close>, \<open>run_record_ids_wrap\<close>). On the consumer's side, a
  line the client means to write reads back as its block (identifier, address text,
  disassembly cut to 255 characters) when no disassembly needs escaping, so the log
  of a run reads back as records \<open>0, \<dots>, N-1\<close> (\<open>client_run_log_readable\<close>, in
  this theory); the overflow line is rejected. When the line up to the last
  listed object fills \<open>json_buf\<close> exactly, \<open>strlen\<close> reads past the array
  (\<open>bb_json_exact_fill_overread\<close>). The loop is equivalent to the loop over the
  first 64 instructions (\<open>bb_loop_cap\<close>), and a block of short instructions reads
  back as exactly its first 64 (\<open>bb_json_caps_at_64\<close>, in this theory). The
  concurrent model refines the sequential callback, and from every reachable state
  the threads' own steps reach quiescence or a crash.
  Through drmgr, a block of \<open>n\<close> application instructions yields \<open>n\<close> copies of its
  record, and an empty block none, so the log of a whole run reads back with each
  block repeated once per instruction (\<open>drmgr_run_log_readable\<close>, in this theory).
  \<open>event_exit\<close> undoes what \<open>dr_client_main\<close> set up (\<open>client_lifecycle_roundtrip\<close>).
  Under any interleaving of threads, in a run in which DynamoRIO only builds small
  blocks that need no escaping (\<open>reachable_with\<close>, the reachable states of such an
  environment; the invariant \<open>conc_inv_with\<close> then records that every written
  entry has such a block), the log reads back as records \<open>0, \<dots>, n-1\<close> in file
  order (\<open>concurrent_log_readable\<close>, in this theory). On a device with \<open>r\<close> free bytes
  the log of a run is the first \<open>r\<close> bytes of the intended log while \<open>bb_id\<close> counts
  every block (\<open>client_run_log_disk_full\<close>); since the count \<open>dr_write_file\<close>
  returns is ignored, a device that fills mid-record leaves a log the consumer
  rejects (\<open>client_disk_full_log_unreadable\<close>, in this theory).

  \<^bold>\<open>Bounds.\<close> The buffer sizes are the source's (4096, 256, 64 instructions). A
  header is at most 40 characters (\<open>%d\<close> of an \<open>int\<close> is at most 11), an entry
  at most 297 (18 for \<open>%p\<close>, 255 for the disassembly), a separator 2, the trailer 3:
  \<open>43 + 299 * 13 < 4096 \<le> 43 + 299 * 14\<close>, hence the 13-instruction bound (and the
  intended line is written exactly when it is shorter than 4096, \<open>bb_json_exact_iff\<close>); with
  disassembly texts of at most 16 characters an object is at most 58, and 64 of them
  fit. No fuel is needed: every loop of the client is over a finite list, and the
  reader's recursion (\<open>read_entries\<close>) terminates by the length of its input. The
  concurrent model's quiescence is by induction on a measure of the steps left in
  the running callbacks, not fuel.

  \<^bold>\<open>Not modelled.\<close> The internals of
  DynamoRIO's block discovery, code cache and thread scheduling (only the order of
  the callback's steps matters; the interleaving is arbitrary in \<open>cstep\<close>); the
  decoder (an instruction is its application flag, address and disassembly text);
  drmgr's other phases (the client registers none); what \<open>dr_log\<close> does in a
  release build (nothing: the model records the message as a debug build with
  logging on does). The boolean results of \<open>drmgr_init\<close>,
  \<open>drutil_init\<close> and \<open>drmgr_register_bb_instrumentation_event\<close> (lines 23--27)
  are ignored by the client; the model takes these calls to succeed, since what a
  failure leaves behind is internal to the extensions and undocumented. Short writes come only from a full device:
  a write interrupted by a signal is not modelled (the log is a regular file). The
  concurrent model appends whole lines: it assumes a device that never fills, as
  the sequential theorems other than those of \<open>Short_Writes\<close> do
  (\<open>room = None\<close>).
\<close>

subsection \<open>Reading the log of a run\<close>

lemma read_log_expected_log:
  "\<forall>b \<in> set bs. \<forall>i \<in> set b. json_safe (instr_text i) \<Longrightarrow>
   read_log (expected_log bid bs) = Some (log_values bid bs)"
proof (induction bs arbitrary: bid)
  case Nil
  then show ?case by (simp add: read_log_def)
next
  case (Cons b bs)
  then show ?case by (simp add: read_log_json_record)
qed

lemma log_values_entries:
  "map snd (log_values i bs) = map (\<lambda>b. map entry_text (bb_entries b)) bs"
  by (induction bs arbitrary: i) simp_all

lemma log_values_ids:
  "j + length bs \<le> 2 ^ 31 \<Longrightarrow> map fst (log_values (word_of_nat j) bs) = map int [j..<j + length bs]"
proof (induction bs arbitrary: j)
  case (Cons b bs)
  have s1: "sint (word_of_nat j :: 32 word) = int j"
    using Cons.prems by (intro sint_word_of_nat_small) simp
  have s2: "(word_of_nat j :: 32 word) + 1 = word_of_nat (Suc j)"
    by simp
  have "Suc j + length bs \<le> 2 ^ 31"
    using Cons.prems by simp
  then have ih: "map fst (log_values (word_of_nat (Suc j)) bs) = map int [Suc j..<Suc j + length bs]"
    by (rule Cons.IH)
  have "map fst (log_values (word_of_nat j) (b # bs)) = int j # map fst (log_values (word_of_nat (Suc j)) bs)"
    by (simp only: log_values.simps list.map fst_conv s1 s2)
  also have "\<dots> = map int [j..<j + length (b # bs)]"
    unfolding ih by (simp del: upt_Suc add: upt_conv_Cons)
  finally show ?case .
qed simp

text \<open>A run of block events from a fresh recording client, read back line by line.\<close>

lemma run_events_read_back:
  assumes rec: "recording c" and id0: "bb_id c = 0" and empty: "file_contents (world c) log_name = []"
    and fit: "\<forall>k < length es. length (json_record (word_of_nat k) (ev_bb (es ! k))) < json_bufsz"
    and safe: "\<forall>e \<in> set es. \<forall>i \<in> set (ev_bb e). json_safe (instr_text i)"
    and few: "length es \<le> 2 ^ 31"
  shows "\<exists>c' ys. run_events c es = Inr c' \<and> read_log (file_contents (world c') log_name) = Some ys \<and>
                 map fst ys = map int [0..<length es] \<and>
                 map snd ys = map (\<lambda>e. map entry_text (bb_entries (ev_bb e))) es"
proof -
  have "\<forall>k < length es. length (json_record (bb_id c + word_of_nat k) (ev_bb (es ! k))) < json_bufsz"
    using fit by (simp add: id0)
  then obtain c' where run: "run_events c es = Inr c'"
    and log: "file_contents (world c') log_name =
                file_contents (world c) log_name @ expected_log (bb_id c) (map ev_bb es)"
    using run_events_appends [OF rec] by blast
  have "read_log (file_contents (world c') log_name) = Some (log_values 0 (map ev_bb es))"
    using log empty id0 read_log_expected_log [of "map ev_bb es" 0] safe
    by simp
  moreover have "map fst (log_values 0 (map ev_bb es)) = map int [0..<length es]"
    using log_values_ids [of 0 "map ev_bb es"] few by simp
  moreover have "map snd (log_values 0 (map ev_bb es)) = map (\<lambda>e. map entry_text (bb_entries (ev_bb e))) es"
    by (simp add: log_values_entries)
  ultimately show ?thesis
    using run by blast
qed

text \<open>
  C6. The log of a run reads back, line by line, as the blocks in order: after
  \<open>dr_client_main\<close> and \<open>N \<le> 2^31\<close> block events whose records fit in \<open>json_buf\<close> and
  whose disassembly needs no escaping, every line of \<open>bbv_output.jsonl\<close> is a record,
  their \<open>bb_id\<close>s are \<open>0, 1, \<dots>, N-1\<close> in file order, and the \<open>k\<close>-th lists the
  first 64 application instructions of the \<open>k\<close>-th block.
\<close>

theorem client_run_log_readable:
  assumes init: "dr_client_main (client_load w) = Inr c" and io: "\<not> io_error w" and rm: "room w = None"
    and fit: "\<forall>k < length es. length (json_record (word_of_nat k) (ev_bb (es ! k))) < json_bufsz"
    and safe: "\<forall>e \<in> set es. \<forall>i \<in> set (ev_bb e). json_safe (instr_text i)"
    and few: "length es \<le> 2 ^ 31"
  shows "\<exists>c' ys. run_events c es = Inr c' \<and> read_log (file_contents (world c') log_name) = Some ys \<and>
                 map fst ys = map int [0..<length es] \<and>
                 map snd ys = map (\<lambda>e. map entry_text (bb_entries (ev_bb e))) es"
proof -
  have rec: "recording c"
    using dr_client_main_recording [OF init] io rm by (simp add: client_load_def)
  have id0: "bb_id c = 0"
    using dr_client_main_bb_id [OF init] by (simp add: client_load_def)
  show ?thesis
    using run_events_read_back [OF rec id0 dr_client_main_log_empty [OF init] fit safe few] .
qed

theorem client_run_log_readable_witness:
  "(let w = \<lparr>files = Map.empty, creatable = (\<lambda>_. True), fds = Map.empty, next_fd = 3, io_error = False, room = None\<rparr>;
        i = \<lparr>instr_is_app = True, instr_app_pc = 0x2000, instr_text = ''ret''\<rparr>;
        es = [\<lparr>ev_bb = [i], ev_for_trace = False, ev_translating = False, ev_junk = (\<lambda>_. CHR ''?'')\<rparr>,
              \<lparr>ev_bb = [i], ev_for_trace = False, ev_translating = False, ev_junk = (\<lambda>_. nul)\<rparr>]
    in \<exists>c. dr_client_main (client_load w) = Inr c \<and> \<not> io_error w \<and> room w = None \<and>
           (\<forall>k < length es. length (json_record (word_of_nat k) (ev_bb (es ! k))) < json_bufsz) \<and>
           json_safe (instr_text i) \<and> length es \<le> 2 ^ 31 \<and>
           (\<exists>c' ys. run_events c es = Inr c' \<and> read_log (file_contents (world c') log_name) = Some ys \<and>
                    map fst ys = [0, 1] \<and>
                    map snd ys = map (\<lambda>e. map entry_text (bb_entries (ev_bb e))) es))"
proof -
  let ?w = "\<lparr>files = Map.empty, creatable = (\<lambda>_. True), fds = Map.empty, next_fd = 3, io_error = False, room = None\<rparr>"
  let ?i = "\<lparr>instr_is_app = True, instr_app_pc = 0x2000, instr_text = ''ret''\<rparr>"
  let ?es = "[\<lparr>ev_bb = [?i], ev_for_trace = False, ev_translating = False, ev_junk = (\<lambda>_. CHR ''?'')\<rparr>,
              \<lparr>ev_bb = [?i], ev_for_trace = False, ev_translating = False, ev_junk = (\<lambda>_. nul)\<rparr>]"
  obtain c where init: "dr_client_main (client_load ?w) = Inr c"
    using dr_client_main_ok [of "client_load ?w"] by (simp add: client_load_def)
  have "length (json_record bid [?i]) < json_bufsz" for bid
  proof -
    have "length (json_record bid [?i]) \<le> 43 + 299 * length (bb_entries [?i])"
      by (rule length_json_record_le)
    moreover have "length (bb_entries [?i]) = 1"
      by (simp add: bb_entries_def app_instrs_def max_instrs_def)
    ultimately show ?thesis
      by (simp add: json_bufsz_def)
  qed
  then have fit: "\<forall>k < length ?es. length (json_record (word_of_nat k) (ev_bb (?es ! k))) < json_bufsz"
    by (simp add: less_Suc_eq)
  have safe: "\<forall>e \<in> set ?es. \<forall>i \<in> set (ev_bb e). json_safe (instr_text i)"
    by (simp add: json_safe_def json_char_of)
  have "[0..<length ?es] = [0, 1]"
    by (simp add: upt_rec)
  then show ?thesis
    using client_run_log_readable [OF init _ _ fit safe] init fit safe by (simp add: Let_def)
qed

subsection \<open>The log of a run through drmgr\<close>

text \<open>
  C9. What a consumer reads after a run: after \<open>dr_client_main\<close>, DynamoRIO builds
  blocks of at most 13 application instructions whose disassembly needs no escaping,
  and drmgr calls the callback for each of their application instructions. Then
  \<open>bbv_output.jsonl\<close> reads back, line by line, as records with \<open>bb_id\<close>s
  \<open>0, 1, \<dots>\<close> in file order, in which each block appears once per application
  instruction it has and a block without one does not appear.
\<close>

theorem drmgr_run_log_readable:
  assumes init: "dr_client_main (client_load w) = Inr c" and io: "\<not> io_error w" and rm: "room w = None"
    and small: "\<forall>(bb, ft, tr, J) \<in> set bs. length (app_instrs bb) \<le> 13 \<and> (\<forall>i \<in> set bb. json_safe (instr_text i))"
    and few: "length (block_events bs) \<le> 2 ^ 31"
  shows "\<exists>c' ys. run_blocks c bs = Inr c' \<and> read_log (file_contents (world c') log_name) = Some ys \<and>
                 map fst ys = map int [0..<length (block_events bs)] \<and>
                 map snd ys = concat (map (\<lambda>(bb, ft, tr, J).
                                replicate (length (app_instrs bb)) (map entry_text (bb_entries bb))) bs)"
proof -
  let ?es = "block_events bs"
  have rec: "recording c"
    using dr_client_main_recording [OF init] io rm by (simp add: client_load_def)
  have id0: "bb_id c = 0"
    using dr_client_main_bb_id [OF init] by (simp add: client_load_def)
  have each: "length (app_instrs (ev_bb e)) \<le> 13 \<and> (\<forall>i \<in> set (ev_bb e). json_safe (instr_text i))"
    if "e \<in> set ?es" for e
    using block_events_blocks [OF that] small by fast
  have fit: "\<forall>k < length ?es. length (json_record (word_of_nat k) (ev_bb (?es ! k))) < json_bufsz"
  proof (intro allI impI)
    fix k
    assume k: "k < length ?es"
    have "length (app_instrs (ev_bb (?es ! k))) \<le> 13"
      using each [OF nth_mem [OF k]] by blast
    then have "length (bb_entries (ev_bb (?es ! k))) \<le> 13"
      by (simp add: bb_entries_def)
    then show "length (json_record (word_of_nat k) (ev_bb (?es ! k))) < json_bufsz"
      using length_json_record_le [of "word_of_nat k" "ev_bb (?es ! k)"] by (simp add: json_bufsz_def)
  qed
  have safe: "\<forall>e \<in> set ?es. \<forall>i \<in> set (ev_bb e). json_safe (instr_text i)"
    using each by blast
  have "map (\<lambda>e. map entry_text (bb_entries (ev_bb e))) ?es =
          map (\<lambda>b. map entry_text (bb_entries b)) (map ev_bb ?es)"
    by simp
  also have "\<dots> = concat (map (\<lambda>(bb, ft, tr, J).
                      replicate (length (app_instrs bb)) (map entry_text (bb_entries bb))) bs)"
    by (simp add: map_ev_bb_block_events map_concat split_def o_def map_replicate)
  finally show ?thesis
    using run_events_read_back [OF rec id0 dr_client_main_log_empty [OF init] fit safe few]
    by (simp add: run_blocks_run_events)
qed

theorem drmgr_run_log_readable_witness:
  "(let w = \<lparr>files = Map.empty, creatable = (\<lambda>_. True), fds = Map.empty, next_fd = 3, io_error = False, room = None\<rparr>;
        b0 = [\<lparr>instr_is_app = True, instr_app_pc = 0x1000, instr_text = ''mov eax, ebx''\<rparr>,
              \<lparr>instr_is_app = True, instr_app_pc = 0x1002, instr_text = ''add eax, 1''\<rparr>];
        b1 = [\<lparr>instr_is_app = True, instr_app_pc = 0x2000, instr_text = ''ret''\<rparr>];
        bs = [(b0, False, False, \<lambda>_ _. nul), ([], False, False, \<lambda>_ _. nul), (b1, False, False, \<lambda>_ _. nul)]
    in \<exists>c. dr_client_main (client_load w) = Inr c \<and> \<not> io_error w \<and> room w = None \<and>
           length (app_instrs b0) \<le> 13 \<and> length (app_instrs b1) \<le> 13 \<and>
           json_safe ''mov eax, ebx'' \<and> json_safe ''add eax, 1'' \<and> json_safe ''ret'' \<and>
           length (block_events bs) \<le> 2 ^ 31 \<and>
           (\<exists>c' ys. run_blocks c bs = Inr c' \<and> read_log (file_contents (world c') log_name) = Some ys \<and>
              map fst ys = [0, 1, 2] \<and>
              map snd ys = [[(fmt_ptr 0x1000, ''mov eax, ebx''), (fmt_ptr 0x1002, ''add eax, 1'')],
                            [(fmt_ptr 0x1000, ''mov eax, ebx''), (fmt_ptr 0x1002, ''add eax, 1'')],
                            [(fmt_ptr 0x2000, ''ret'')]]))"
proof -
  let ?w = "\<lparr>files = Map.empty, creatable = (\<lambda>_. True), fds = Map.empty, next_fd = 3, io_error = False, room = None\<rparr>"
  let ?b0 = "[\<lparr>instr_is_app = True, instr_app_pc = 0x1000, instr_text = ''mov eax, ebx''\<rparr>,
              \<lparr>instr_is_app = True, instr_app_pc = 0x1002, instr_text = ''add eax, 1''\<rparr>]"
  let ?b1 = "[\<lparr>instr_is_app = True, instr_app_pc = 0x2000, instr_text = ''ret''\<rparr>]"
  let ?bs = "[(?b0, False, False, \<lambda>_ _. nul), ([], False, False, \<lambda>_ _. nul), (?b1, False, False, \<lambda>_ _. nul)]
              :: (instrlist \<times> bool \<times> bool \<times> (nat \<Rightarrow> nat \<Rightarrow> char)) list"
  obtain c where init: "dr_client_main (client_load ?w) = Inr c"
    using dr_client_main_ok [of "client_load ?w"] by (simp add: client_load_def)
  have js: "json_safe ''mov eax, ebx''" "json_safe ''add eax, 1''" "json_safe ''ret''"
    by (simp_all add: json_safe_def json_char_of)
  have small: "\<forall>(bb, ft, tr, J) \<in> set ?bs. length (app_instrs bb) \<le> 13 \<and> (\<forall>i \<in> set bb. json_safe (instr_text i))"
    using js by (simp add: app_instrs_def)
  have len: "length (block_events ?bs) = 3"
    by (simp add: block_events_def app_instrs_def)
  have "[0..<3] = [0, 1, (2::nat)]"
    by (simp add: upt_rec)
  then show ?thesis
    using drmgr_run_log_readable [OF init _ _ small] init js len
    by (simp add: Let_def app_instrs_def bb_entries_def max_instrs_def entry_text_def disasm_bufsz_def)
qed

subsection \<open>The log under concurrent callbacks\<close>

lemma log_text_expected_log:
  assumes "\<forall>k < length ents. snd (snd (ents ! k)) = json_record (word_of_nat (j + k)) (fst (ents ! k))"
  shows "log_text ents = expected_log (word_of_nat j) (map fst ents)"
  using assms
proof (induction ents arbitrary: j)
  case Nil
  then show ?case by (simp add: log_text_def)
next
  case (Cons e ents)
  obtain b jk l where e: "e = (b, jk, l)"
    by (cases e) auto
  have l: "l = json_record (word_of_nat j) b"
    using Cons.prems [rule_format, of 0] e by simp
  have "\<forall>k < length ents. snd (snd (ents ! k)) = json_record (word_of_nat (Suc j + k)) (fst (ents ! k))"
    using Cons.prems by fastforce
  then have "log_text ents = expected_log (word_of_nat (Suc j)) (map fst ents)"
    by (rule Cons.IH)
  moreover have "(word_of_nat j :: 32 word) + 1 = word_of_nat (Suc j)"
    by simp
  ultimately show ?case
    using e l by (simp add: log_text_def add.commute)
qed

lemma log_values_sint:
  "map fst (log_values (word_of_nat j) bs) = map (\<lambda>k. sint (word_of_nat k :: 32 word)) [j..<j + length bs]"
proof (induction bs arbitrary: j)
  case (Cons b bs)
  have w: "(word_of_nat j :: 32 word) + 1 = word_of_nat (Suc j)"
    by simp
  have u: "[j..<j + length (b # bs)] = j # [Suc j..<Suc j + length bs]"
  proof -
    have "[j..<j + Suc (length bs)] = j # [Suc j..<j + Suc (length bs)]"
      by (rule upt_conv_Cons) simp
    then show ?thesis
      by (simp only: length_Cons add_Suc_right add_Suc_shift)
  qed
  have "map fst (log_values (word_of_nat j) (b # bs)) =
          sint (word_of_nat j :: 32 word) # map fst (log_values (word_of_nat (Suc j)) bs)"
    by (simp only: log_values.simps list.map fst_conv w)
  also have "\<dots> = map (\<lambda>k. sint (word_of_nat k :: 32 word)) [j..<j + length (b # bs)]"
    by (simp only: Cons.IH u list.map)
  finally show ?case .
qed simp

text \<open>
  C10. Under any interleaving of the callbacks of any number of threads, in a run in
  which DynamoRIO only builds small blocks (at most 13 application instructions)
  whose disassembly needs no escaping, a consumer reads the log line by line as
  records whose identifiers are the counts \<open>0, 1, \<dots>, n-1\<close> in file order (as \<open>%d\<close>
  prints them), each listing one such block, and when no callback holds the mutex
  \<open>bb_id\<close> equals the number of records: the spec's total order of records under
  concurrency.
\<close>

theorem concurrent_log_readable:
  assumes r: "reachable_with (\<lambda>b. length (app_instrs b) \<le> 13 \<and> (\<forall>i \<in> set b. json_safe (instr_text i))) s"
  shows "\<exists>ys bs. read_log (log s) = Some ys \<and>
           map fst ys = map (\<lambda>k. sint (word_of_nat k :: 32 word)) [0..<length ys] \<and>
           length bs = length ys \<and> map snd ys = map (\<lambda>b. map entry_text (bb_entries b)) bs \<and>
           (\<forall>b \<in> set bs. length (app_instrs b) \<le> 13) \<and>
           (holder s = None \<longrightarrow> shared_id s = word_of_nat (length ys))"
proof -
  let ?P = "\<lambda>b. length (app_instrs b) \<le> 13 \<and> (\<forall>i \<in> set b. json_safe (instr_text i))"
  from reachable_with_conc_inv [OF r] obtain ents where lg: "log s = log_text ents"
    and ok: "entries_ok ents" and ida: "id_agrees s (length ents)" and E: "blocks_ok ?P ents"
    by (rule conc_invE)
  have rec: "snd (snd (ents ! k)) = json_record (word_of_nat (0 + k)) (fst (ents ! k))" if k: "k < length ents" for k
  proof -
    obtain b j l where e: "ents ! k = (b, j, l)"
      by (cases "ents ! k") auto
    have "(b, j, l) \<in> set ents"
      using nth_mem [OF k] e by simp
    then have "?P b"
      using E unfolding blocks_ok_def by fastforce
    then have "length (app_instrs b) \<le> 13"
      by simp
    then have "length (json_record (word_of_nat k) b) < json_bufsz"
      using length_json_record_le [of "word_of_nat k" b]
      by (simp add: bb_entries_def json_bufsz_def max_instrs_def)
    then have "bb_json (word_of_nat k) b j = Inr (json_record (word_of_nat k) b)"
      by (rule bb_json_fits)
    moreover have "bb_json (word_of_nat k) b j = Inr l"
      using ok k e by (auto simp: entries_ok_def)
    ultimately show ?thesis
      using e by simp
  qed
  have "log s = expected_log 0 (map fst ents)"
    using lg log_text_expected_log [of ents 0] rec by simp
  moreover have "\<forall>b' \<in> set (map fst ents). \<forall>i \<in> set b'. json_safe (instr_text i)"
    using E by (auto simp: blocks_ok_def)
  ultimately have rd: "read_log (log s) = Some (log_values 0 (map fst ents))"
    using read_log_expected_log by simp
  have len: "length (log_values 0 (map fst ents)) = length ents"
    using arg_cong [OF log_values_entries [of 0 "map fst ents"], of length] by simp
  have ids: "map fst (log_values 0 (map fst ents)) =
               map (\<lambda>k. sint (word_of_nat k :: 32 word)) [0..<length (log_values 0 (map fst ents))]"
    using log_values_sint [of 0 "map fst ents"] len by simp
  have sm: "\<forall>b \<in> set (map fst ents). length (app_instrs b) \<le> 13"
    using E by (auto simp: blocks_ok_def)
  have "holder s = None \<longrightarrow> shared_id s = word_of_nat (length ents)"
    using ida by (simp add: id_agrees_def split: option.splits)
  then show ?thesis
    using rd ids sm len log_values_entries [of 0 "map fst ents"]
    by (intro exI [of _ "log_values 0 (map fst ents)"] exI [of _ "map fst ents"]) simp
qed

theorem concurrent_log_readable_witness:
  "\<exists>s. reachable_with (\<lambda>b. length (app_instrs b) \<le> 13 \<and> (\<forall>i \<in> set b. json_safe (instr_text i))) s \<and>
       log s = json_record 0 [\<lparr>instr_is_app = True, instr_app_pc = 0x2000, instr_text = ''ret''\<rparr>] \<and>
       (\<exists>ys bs. read_log (log s) = Some ys \<and>
           map fst ys = map (\<lambda>k. sint (word_of_nat k :: 32 word)) [0..<length ys] \<and>
           length bs = length ys \<and> map snd ys = map (\<lambda>b. map entry_text (bb_entries b)) bs \<and>
           (\<forall>b \<in> set bs. length (app_instrs b) \<le> 13) \<and>
           (holder s = None \<longrightarrow> shared_id s = word_of_nat (length ys)))"
proof -
  let ?P = "\<lambda>b. length (app_instrs b) \<le> 13 \<and> (\<forall>i \<in> set b. json_safe (instr_text i))"
  let ?bb = "[\<lparr>instr_is_app = True, instr_app_pc = 0x2000, instr_text = ''ret''\<rparr>]"
  have "bb_json 0 ?bb (\<lambda>_. nul) = Inr (json_record 0 ?bb)"
    using ret_record_fits [of 0] by (rule bb_json_fits)
  moreover have "?P ?bb"
    by (simp add: app_instrs_def json_safe_def json_char_of)
  ultimately obtain t where rt: "reachable_with ?P t" and lt: "log t = log init_sys @ json_record 0 ?bb"
    using solo_callback_with [OF reachable_with.start, of 0 ?P ?bb "\<lambda>_. nul" "json_record 0 ?bb"]
    by (auto simp: init_sys_def idle_thread_def)
  from lt have "log t = json_record 0 ?bb"
    by (simp add: init_sys_def)
  then show ?thesis
    using rt concurrent_log_readable [OF rt] by (intro exI [of _ t] conjI) simp_all
qed

subsection \<open>The log of a run on a device that fills up\<close>

text \<open>
  C12. The ignored result of \<open>dr_write_file\<close>: when the device fills up in the
  middle of a record (the byte where the log stops is not a line's newline), the
  run goes on as if nothing happened, but a consumer that reads the log line by
  line, each line as one record, rejects the log.
\<close>

theorem client_disk_full_log_unreadable:
  assumes init: "dr_client_main (client_load w) = Inr c" and io: "\<not> io_error w" and rm: "room w = Some r"
    and fit: "\<forall>k < length es. length (json_record (word_of_nat k) (ev_bb (es ! k))) < json_bufsz"
    and cut: "take (r + length (file_contents w log_name)) (expected_log 0 (map ev_bb es)) \<noteq> []"
      "last (take (r + length (file_contents w log_name)) (expected_log 0 (map ev_bb es))) \<noteq> newline"
  shows "\<exists>c'. run_events c es = Inr c' \<and> bb_id c' = word_of_nat (length es) \<and>
              read_log (file_contents (world c') log_name) = None"
proof -
  have lg0: "logging c" and rm0: "room (world c) = Some (r + length (file_contents w log_name))"
    and id0: "bb_id c = 0" and empty: "file_contents (world c) log_name = []"
    using dr_client_main_fills [OF init io rm] by simp_all
  obtain c' where "run_events c es = Inr c'" and "bb_id c' = word_of_nat (length es)"
    and lg: "file_contents (world c') log_name =
               take (r + length (file_contents w log_name)) (expected_log 0 (map ev_bb es))"
    using run_events_fills [OF lg0 rm0, of es] fit id0 empty by auto
  moreover have "read_log (file_contents (world c') log_name) = None"
    unfolding lg using cut by (rule read_log_unterminated)
  ultimately show ?thesis
    by blast
qed

theorem client_disk_full_log_unreadable_witness:
  \<open>(let w = \<lparr>files = [log_name \<mapsto> ''old''], creatable = (\<lambda>_. True), fds = Map.empty, next_fd = 3,
            io_error = False, room = Some 7\<rparr>;
        i = \<lparr>instr_is_app = True, instr_app_pc = 0x2000, instr_text = ''ret''\<rparr>;
        es = [\<lparr>ev_bb = [i], ev_for_trace = False, ev_translating = False, ev_junk = (\<lambda>_. CHR ''?'')\<rparr>]
    in \<exists>c. dr_client_main (client_load w) = Inr c \<and> \<not> io_error w \<and> room w = Some 7 \<and>
           length (json_record 0 [i]) < json_bufsz \<and>
           take 10 (expected_log 0 (map ev_bb es)) = ''{"bb_id": '' \<and>
           (\<exists>c'. run_events c es = Inr c' \<and> bb_id c' = 1 \<and>
                 read_log (file_contents (world c') log_name) = None))\<close>
proof -
  let ?w = "\<lparr>files = [log_name \<mapsto> ''old''], creatable = (\<lambda>_. True), fds = Map.empty, next_fd = 3,
            io_error = False, room = Some 7\<rparr>"
  let ?i = "\<lparr>instr_is_app = True, instr_app_pc = 0x2000, instr_text = ''ret''\<rparr>"
  let ?es = "[\<lparr>ev_bb = [?i], ev_for_trace = False, ev_translating = False, ev_junk = (\<lambda>_. CHR ''?'')\<rparr>]"
  obtain c where init: "dr_client_main (client_load ?w) = Inr c"
    using dr_client_main_ok [of "client_load ?w"] by (simp add: client_load_def)
  have "length (json_record 0 [?i]) \<le> 43 + 299 * length (bb_entries [?i])"
    by (rule length_json_record_le)
  moreover have "length (bb_entries [?i]) = 1"
    by (simp add: bb_entries_def app_instrs_def max_instrs_def)
  ultimately have fit: "length (json_record 0 [?i]) < json_bufsz"
    by (simp add: json_bufsz_def)
  have cut: \<open>take 10 (json_record 0 [?i]) = ''{"bb_id": ''\<close>
    by (simp add: json_record_def bb_header_def)
  have len: "length (file_contents ?w log_name) = 3"
    by (simp add: file_contents_def)
  have t: \<open>take (7 + length (file_contents ?w log_name)) (expected_log 0 (map ev_bb ?es)) = ''{"bb_id": ''\<close>
    using cut by (simp add: len)
  then have ne: "take (7 + length (file_contents ?w log_name)) (expected_log 0 (map ev_bb ?es)) \<noteq> []"
    and nl: "last (take (7 + length (file_contents ?w log_name)) (expected_log 0 (map ev_bb ?es))) \<noteq> newline"
    by simp_all
  have fit': "\<forall>k < length ?es. length (json_record (word_of_nat k) (ev_bb (?es ! k))) < json_bufsz"
    using fit by simp
  show ?thesis
    using client_disk_full_log_unreadable [OF init _ _ fit' ne nl] init fit cut
    by (simp add: Let_def)
qed

subsection \<open>The 64-instruction cap\<close>

text \<open>
  C13. Blocks of any length whose disassembly texts are short (at most 16 characters,
  such as \<open>mov eax, ebx\<close>) and need no escaping: the line the callback writes reads
  back as the block's identifier and exactly its first \<open>min 64 N\<close> application
  instructions in program order; a block of 70 instructions gives 64 entries, with no
  separator before the first or after the last.
\<close>

theorem bb_json_caps_at_64:
  assumes short: "\<forall>i \<in> set bb. json_safe (instr_text i) \<and> length (instr_text i) \<le> 16"
  shows "\<exists>line. bb_json bid bb junk = Inr line \<and>
                read_line line = Some (sint bid, map entry_text (take 64 (app_instrs bb)))"
proof -
  have sub: "set (bb_entries bb) \<subseteq> set bb"
    by (auto simp: bb_entries_def app_instrs_def dest: in_set_takeD)
  have "\<forall>i \<in> set (bb_entries bb). length (entry_json i) \<le> 58"
  proof
    fix i
    assume "i \<in> set (bb_entries bb)"
    then have "length (instr_text i) \<le> 16"
      using short sub by blast
    then show "length (entry_json i) \<le> 58"
      using length_entry_json_text [of i] by linarith
  qed
  then have "length (json_record bid bb) \<le> 43 + 60 * length (bb_entries bb)"
    using length_json_record_bound [of bb 58 bid] by simp
  moreover have "length (bb_entries bb) \<le> 64"
    by (simp add: bb_entries_def max_instrs_def)
  ultimately have "length (json_record bid bb) < json_bufsz"
    by (simp add: json_bufsz_def)
  then have "bb_json bid bb junk = Inr (json_record bid bb)"
    by (rule bb_json_fits)
  moreover have "read_line (json_record bid bb) = Some (sint bid, map entry_text (bb_entries bb))"
    using read_record_json_record [of bb bid "[]"] short by (simp add: read_line_def)
  ultimately show ?thesis
    by (simp add: bb_entries_def max_instrs_def)
qed

theorem bb_json_caps_at_64_witness:
  "json_safe ''nop'' \<and> length ''nop'' \<le> 16 \<and>
   (\<exists>line. bb_json 7 (replicate 70 \<lparr>instr_is_app = True, instr_app_pc = 0x400000, instr_text = ''nop''\<rparr>)
             (\<lambda>_. nul) = Inr line \<and>
           read_line line = Some (7, replicate 64 (fmt_ptr 0x400000, ''nop'')))"
proof -
  let ?i = "\<lparr>instr_is_app = True, instr_app_pc = 0x400000, instr_text = ''nop''\<rparr>"
  have s: "json_safe ''nop''"
    by (simp add: json_safe_def json_char_of)
  have "take 64 (app_instrs (replicate 70 ?i)) = replicate 64 ?i"
    by (simp add: app_instrs_def)
  then show ?thesis
    using bb_json_caps_at_64 [of "replicate 70 ?i" 7 "\<lambda>_. nul"] s
    by (simp add: entry_text_def disasm_bufsz_def)
qed

end
